theory Spec2Isabelle
  imports Complex_Main "HOL-Library.Monad_Syntax"
begin

section \<open>The tiling system of \<^verbatim>\<open>src/geo/tiles.cc\<close>\<close>

text \<open>
  The class \<^verbatim>\<open>Tiles\<close> divides a bounding box into square tiles that are numbered row
  by row, and lists the tiles that a query box touches.

  Conventions of the embedding.
  \<^item> A \<^verbatim>\<open>float\<close> is a value of IEEE 754 binary32 and a \<^verbatim>\<open>double\<close> one of binary64: a
    finite real, an infinity or a NaN. Each operation gives the exact result rounded to
    the nearest value of its format, ties to the even significand, with subnormal
    results and with overflow to an infinity. An operation on two \<^verbatim>\<open>float\<close> operands
    rounds to binary32 (\<^verbatim>\<open>FLT_EVAL_METHOD\<close> 0); one with a \<^verbatim>\<open>double\<close> operand rounds to
    binary64. The sign of a zero is not kept: it could show only in a division by a
    zero tile size, whose result is converted to \<^verbatim>\<open>int\<close>, which is undefined whatever
    its sign.
  \<^item> An \<^verbatim>\<open>int\<close> is an \<open>int\<close>. Signed overflow is undefined in C++ and outside the model;
    the conversions to and from \<^verbatim>\<open>unsigned int\<close>, which are defined, are written out
    modulo \<open>2 ^ 32\<close>.
  \<^item> A function that divides integers or converts a \<^verbatim>\<open>float\<close> to \<^verbatim>\<open>int\<close> returns an
    \<open>option\<close>: \<open>None\<close> stands for undefined behaviour (an integer division by zero, the
    conversion of a NaN, of an infinity or of a value beyond the range of \<^verbatim>\<open>int\<close>).
  \<^item> The member variables of the class are the fields of one record, which the
    member functions that write to them return updated.
\<close>

subsection \<open>Floating-point numbers\<close>

datatype fp = Fin real | PInf | MInf | NaN

definition pow2 :: "int \<Rightarrow> real" where
  "pow2 k = (if 0 \<le> k then 2 ^ nat k else 1 / 2 ^ nat (- k))"

text \<open>The nearest integer, the even one of two that are equally near.\<close>

definition rne :: "real \<Rightarrow> int" where
  "rne r =
     (let f = \<lfloor>r\<rfloor>; d = r - of_int f
      in if d < 1 / 2 then f else if 1 / 2 < d then f + 1 else if even f then f else f + 1)"

text \<open>The number of binary digits of a positive integer.\<close>

function bits :: "int \<Rightarrow> int" where
  "bits n = (if n \<le> 0 then 0 else 1 + bits (n div 2))"
  by pat_completeness auto
termination
  by (relation "measure nat") auto

declare bits.simps [simp del]

text \<open>
  A format has \<open>p\<close> digits in its significand and the least exponent \<open>emin\<close> of a normal
  number; its values are the multiples of \<open>2 ^ (emin - p + 1)\<close> up to \<open>p\<close> digits, then
  the multiples of the next power of two with \<open>p\<close> digits, and so on. \<open>ulp_exp\<close> is the
  exponent of the power of two of which the values around \<open>x\<close> are multiples.
\<close>

definition ulp_exp :: "int \<Rightarrow> int \<Rightarrow> real \<Rightarrow> int" where
  "ulp_exp p emin x =
     (let s = emin - p + 1; n = \<lfloor>\<bar>x\<bar> * pow2 (- s)\<rfloor>
      in max (bits n - p) 0 + s)"

definition round_fp :: "int \<Rightarrow> int \<Rightarrow> int \<Rightarrow> real \<Rightarrow> fp" where
  "round_fp p emin emax x =
     (let k = ulp_exp p emin x; r = of_int (rne (x / pow2 k)) * pow2 k
      in if pow2 (emax + 1) \<le> \<bar>r\<bar> then (if x < 0 then MInf else PInf) else Fin r)"

definition float32 :: "real \<Rightarrow> fp" where
  "float32 = round_fp 24 (- 126) 127"

definition float64 :: "real \<Rightarrow> fp" where
  "float64 = round_fp 53 (- 1022) 1023"

text \<open>The operations take the rounding of their format as first argument.\<close>

fun fp_neg :: "fp \<Rightarrow> fp" where
  "fp_neg (Fin x) = Fin (- x)"
| "fp_neg PInf = MInf"
| "fp_neg MInf = PInf"
| "fp_neg NaN = NaN"

fun fp_add :: "(real \<Rightarrow> fp) \<Rightarrow> fp \<Rightarrow> fp \<Rightarrow> fp" where
  "fp_add rd (Fin x) (Fin y) = rd (x + y)"
| "fp_add rd NaN b = NaN"
| "fp_add rd a NaN = NaN"
| "fp_add rd PInf MInf = NaN"
| "fp_add rd MInf PInf = NaN"
| "fp_add rd PInf b = PInf"
| "fp_add rd MInf b = MInf"
| "fp_add rd (Fin x) b = b"

definition fp_sub :: "(real \<Rightarrow> fp) \<Rightarrow> fp \<Rightarrow> fp \<Rightarrow> fp" where
  "fp_sub rd a b = fp_add rd a (fp_neg b)"

fun fp_mul :: "(real \<Rightarrow> fp) \<Rightarrow> fp \<Rightarrow> fp \<Rightarrow> fp" where
  "fp_mul rd (Fin x) (Fin y) = rd (x * y)"
| "fp_mul rd NaN b = NaN"
| "fp_mul rd a NaN = NaN"
| "fp_mul rd (Fin x) b = (if x = 0 then NaN else if (0 < x) = (b = PInf) then PInf else MInf)"
| "fp_mul rd a (Fin y) = (if y = 0 then NaN else if (0 < y) = (a = PInf) then PInf else MInf)"
| "fp_mul rd a b = (if a = b then PInf else MInf)"

fun fp_div :: "(real \<Rightarrow> fp) \<Rightarrow> fp \<Rightarrow> fp \<Rightarrow> fp" where
  "fp_div rd (Fin x) (Fin y) =
     (if y = 0 then (if x = 0 then NaN else if 0 < x then PInf else MInf) else rd (x / y))"
| "fp_div rd NaN b = NaN"
| "fp_div rd a NaN = NaN"
| "fp_div rd (Fin x) b = Fin 0"
| "fp_div rd a (Fin y) = (if (0 \<le> y) = (a = PInf) then PInf else MInf)"
| "fp_div rd a b = NaN"

text \<open>Comparisons with a NaN are false.\<close>

fun fp_lt :: "fp \<Rightarrow> fp \<Rightarrow> bool" where
  "fp_lt (Fin x) (Fin y) = (x < y)"
| "fp_lt NaN b = False"
| "fp_lt a NaN = False"
| "fp_lt a MInf = False"
| "fp_lt PInf b = False"
| "fp_lt a b = True"

definition fp_eq :: "fp \<Rightarrow> fp \<Rightarrow> bool" where
  "fp_eq a b = (a \<noteq> NaN \<and> a = b)"

definition fp_ge :: "fp \<Rightarrow> fp \<Rightarrow> bool" where
  "fp_ge a b = (fp_lt b a \<or> fp_eq a b)"

text \<open>\<^verbatim>\<open>ceil\<close> is exact.\<close>

fun fp_ceil :: "fp \<Rightarrow> fp" where
  "fp_ceil (Fin x) = Fin (of_int \<lceil>x\<rceil>)"
| "fp_ceil a = a"

text \<open>The conversion of a \<^verbatim>\<open>double\<close> to \<^verbatim>\<open>float\<close> rounds.\<close>

fun to_float :: "fp \<Rightarrow> fp" where
  "to_float (Fin x) = float32 x"
| "to_float a = a"

text \<open>The values that an \<^verbatim>\<open>int\<close> of 32 bits can hold.\<close>

definition is_int :: "int \<Rightarrow> bool" where
  "is_int i = (- (2 ^ 31) \<le> i \<and> i < 2 ^ 31)"

text \<open>
  The cast \<^verbatim>\<open>(int) f\<close> drops the fractional part: it rounds towards zero. It is undefined
  when the result is not a value of \<^verbatim>\<open>int\<close>.
\<close>

fun fp_to_int :: "fp \<Rightarrow> int option" where
  "fp_to_int (Fin x) =
     (let i = (if 0 \<le> x then \<lfloor>x\<rfloor> else \<lceil>x\<rceil>) in if is_int i then Some i else None)"
| "fp_to_int a = None"

text \<open>The conversion of an \<^verbatim>\<open>int\<close> to \<^verbatim>\<open>float\<close> rounds.\<close>

definition int_to_float :: "int \<Rightarrow> fp" where
  "int_to_float i = float32 (of_int i)"

subsection \<open>Integers\<close>

text \<open>The integer division \<^verbatim>\<open>a / b\<close> rounds towards zero as well.\<close>

definition idiv :: "int \<Rightarrow> int \<Rightarrow> int option" where
  "idiv a b = (if b = 0 then None else Some (sgn a * sgn b * (\<bar>a\<bar> div \<bar>b\<bar>)))"

text \<open>The value of an \<^verbatim>\<open>int\<close> converted to \<^verbatim>\<open>unsigned int\<close>, and back.\<close>

definition to_unsigned :: "int \<Rightarrow> int" where
  "to_unsigned i = i mod 2 ^ 32"

definition to_int :: "int \<Rightarrow> int" where
  "to_int u = (if u < 2 ^ 31 then u else u - 2 ^ 32)"

subsection \<open>Points and boxes\<close>

text \<open>
  Modelled from the spec: the class \<^verbatim>\<open>Point2\<close> is declared in a header that is not part
  of the source at hand. The spec gives a point two coordinates, \<open>x\<close> and \<open>y\<close>; the
  source passes and reads them as \<^verbatim>\<open>float\<close>.
\<close>

record Point2 =
  ptx :: fp
  pty :: fp

text \<open>
  Modelled from the spec: the class \<^verbatim>\<open>AABB2\<close> is declared in a header that is not part of
  the source at hand. The spec gives a box the four bounds \<open>minX\<close>, \<open>minY\<close>, \<open>maxX\<close> and
  \<open>maxY\<close>; the source passes and reads them as \<^verbatim>\<open>float\<close>.
\<close>

record AABB2 =
  minx :: fp
  miny :: fp
  maxx :: fp
  maxy :: fp

text \<open>
  Modelled from the spec: the constructor \<^verbatim>\<open>Point2(a, b)\<close> is missing. It takes \<open>y\<close>
  before \<open>x\<close>: \<^verbatim>\<open>Tiles::Base\<close> passes the coordinate of the row first, and the spec
  describes its result as the point with \<open>x = minX + col * tileSize\<close> and
  \<open>y = minY + row * tileSize\<close>.
\<close>

definition mkPoint2 :: "fp \<Rightarrow> fp \<Rightarrow> Point2" where
  "mkPoint2 yv xv = \<lparr>ptx = xv, pty = yv\<rparr>"

text \<open>
  Modelled from the spec: the constructor \<^verbatim>\<open>AABB2(a, b, c, d)\<close> is missing. It takes the
  minimum corner before the maximum corner, each with \<open>y\<close> before \<open>x\<close>:
  \<^verbatim>\<open>Tiles::TileBounds\<close> passes \<^verbatim>\<open>base.y()\<close>, \<^verbatim>\<open>base.x()\<close> and then the two sums with the
  tile size, and the spec describes its result as the base corner expanded by the tile
  size in both axes.
\<close>

definition mkAABB2 :: "fp \<Rightarrow> fp \<Rightarrow> fp \<Rightarrow> fp \<Rightarrow> AABB2" where
  "mkAABB2 y0 x0 y1 x1 = \<lparr>minx = x0, miny = y0, maxx = x1, maxy = y1\<rparr>"

text \<open>
  Modelled from the spec: \<^verbatim>\<open>AABB2::Center\<close> is the \<open>center()\<close> of the spec's rectangle,
  the point half way between the bounds on each axis, computed in \<^verbatim>\<open>float\<close>.
\<close>

definition AABB2_Center :: "AABB2 \<Rightarrow> Point2" where
  "AABB2_Center r =
     mkPoint2 (fp_div float32 (fp_add float32 (miny r) (maxy r)) (Fin 2))
              (fp_div float32 (fp_add float32 (minx r) (maxx r)) (Fin 2))"

text \<open>
  Modelled from the spec: \<^verbatim>\<open>AABB2::Intersects\<close> is the \<open>intersects\<close> of the spec's
  rectangle, true when the two boxes share any area or boundary (closed intervals).
\<close>

definition Intersects :: "AABB2 \<Rightarrow> AABB2 \<Rightarrow> bool" where
  "Intersects r1 r2 =
     (\<not> (fp_lt (maxx r2) (minx r1) \<or> fp_lt (maxx r1) (minx r2) \<or>
         fp_lt (maxy r2) (miny r1) \<or> fp_lt (maxy r1) (miny r2)))"

subsection \<open>The class\<close>

text \<open>
  Modelled from the spec: the header with the member variables of \<^verbatim>\<open>Tiles\<close> is not part
  of the source at hand. The spec lists the bounds, the tile size, the two counts, and
  for a call of \<^verbatim>\<open>TileList\<close> a work queue, a set of visited tiles and a result sequence.
  The source uses \<^verbatim>\<open>checklist_\<close> as a queue of \<^verbatim>\<open>int\<close> (\<^verbatim>\<open>push_back\<close>, \<^verbatim>\<open>front\<close>,
  \<^verbatim>\<open>pop_front\<close>), returns \<^verbatim>\<open>tilelist_\<close> as a \<^verbatim>\<open>std::vector<int>\<close>, and searches
  \<^verbatim>\<open>visitedtiles_\<close> with an iterator of \<^verbatim>\<open>std::map<int, int>\<close>.
\<close>

record Tiles =
  tilebounds :: AABB2
  tilesize :: fp
  nrows :: int
  ncolumns :: int
  checklist :: "int list"
  tilelist :: "int list"
  visitedtiles :: "int \<rightharpoonup> int"

text \<open>The constructor \<^verbatim>\<open>Tiles::Tiles(bounds, tilesize)\<close>.\<close>

definition mkTiles :: "AABB2 \<Rightarrow> fp \<Rightarrow> Tiles option" where
  "mkTiles bounds ts =
     do {
       nc \<leftarrow> fp_to_int (fp_ceil (fp_div float32 (fp_sub float32 (maxx bounds) (minx bounds)) ts));
       nr \<leftarrow> fp_to_int (fp_ceil (fp_div float32 (fp_sub float32 (maxy bounds) (miny bounds)) ts));
       Some \<lparr>tilebounds = bounds, tilesize = ts, nrows = nr, ncolumns = nc,
             checklist = [], tilelist = [], visitedtiles = Map.empty\<rparr>
     }"

definition Row :: "Tiles \<Rightarrow> fp \<Rightarrow> int option" where
  "Row g yv =
     (if fp_lt yv (miny (tilebounds g)) \<or> fp_lt (maxy (tilebounds g)) yv then Some (- 1)
      else if fp_eq yv (maxy (tilebounds g)) then Some (nrows g - 1)
      else fp_to_int (fp_div float32 (fp_sub float32 yv (miny (tilebounds g))) (tilesize g)))"

definition Col :: "Tiles \<Rightarrow> fp \<Rightarrow> int option" where
  "Col g xv =
     (if fp_lt xv (minx (tilebounds g)) \<or> fp_lt (maxx (tilebounds g)) xv then Some (- 1)
      else if fp_eq xv (maxx (tilebounds g)) then Some (ncolumns g - 1)
      else do {
        let col = fp_div float32 (fp_sub float32 xv (minx (tilebounds g))) (tilesize g);
        i \<leftarrow> fp_to_int col;
        Some (if fp_ge col (Fin 0) then i else i - 1)
      })"

text \<open>\<^verbatim>\<open>TileId(const float y, const float x)\<close>\<close>

definition TileId_yx :: "Tiles \<Rightarrow> fp \<Rightarrow> fp \<Rightarrow> int option" where
  "TileId_yx g yv xv =
     (if fp_lt yv (miny (tilebounds g)) \<or> fp_lt xv (minx (tilebounds g)) \<or>
         fp_lt (maxy (tilebounds g)) yv \<or> fp_lt (maxx (tilebounds g)) xv then Some (- 1)
      else do {
        r \<leftarrow> Row g yv;
        c \<leftarrow> Col g xv;
        Some (r * ncolumns g + c)
      })"

text \<open>\<^verbatim>\<open>TileId(const Point2& c)\<close>\<close>

definition TileId :: "Tiles \<Rightarrow> Point2 \<Rightarrow> int option" where
  "TileId g c = TileId_yx g (pty c) (ptx c)"


text \<open>In \<^verbatim>\<open>row * tilesize_\<close> the \<^verbatim>\<open>int\<close> is converted to \<^verbatim>\<open>float\<close>.\<close>

definition Base :: "Tiles \<Rightarrow> int \<Rightarrow> Point2 option" where
  "Base g tileid =
     do {
       row \<leftarrow> idiv tileid (ncolumns g);
       let col = tileid - row * ncolumns g;
       Some (mkPoint2
               (fp_add float32 (miny (tilebounds g))
                  (fp_mul float32 (int_to_float row) (tilesize g)))
               (fp_add float32 (minx (tilebounds g))
                  (fp_mul float32 (int_to_float col) (tilesize g))))
     }"

text \<open>\<^verbatim>\<open>TileBounds(const int tileid)\<close>\<close>

definition TileBounds :: "Tiles \<Rightarrow> int \<Rightarrow> AABB2 option" where
  "TileBounds g tileid =
     do {
       base \<leftarrow> Base g tileid;
       Some (mkAABB2 (pty base) (ptx base)
               (fp_add float32 (pty base) (tilesize g))
               (fp_add float32 (ptx base) (tilesize g)))
     }"

text \<open>
  In \<^verbatim>\<open>base.y() + tilesize_ * 0.5\<close> the literal is a \<^verbatim>\<open>double\<close>: the product and the sum are
  computed in \<^verbatim>\<open>double\<close>, and the sum is converted to the \<^verbatim>\<open>float\<close> of the point.
\<close>

definition Center :: "Tiles \<Rightarrow> int \<Rightarrow> Point2 option" where
  "Center g tileid =
     do {
       base \<leftarrow> Base g tileid;
       Some (mkPoint2
               (to_float (fp_add float64 (pty base) (fp_mul float64 (tilesize g) (Fin (1 / 2)))))
               (to_float (fp_add float64 (ptx base) (fp_mul float64 (tilesize g) (Fin (1 / 2))))))
     }"

text \<open>The result of \<^verbatim>\<open>TileCount\<close> is an \<^verbatim>\<open>unsigned int\<close>.\<close>

definition TileCount :: "Tiles \<Rightarrow> int option" where
  "TileCount g =
     do {
       let nr = fp_div float32
                  (fp_sub float32 (maxy (tilebounds g)) (miny (tilebounds g))) (tilesize g);
       n \<leftarrow> fp_to_int (fp_ceil nr);
       Some (to_unsigned (ncolumns g * n))
     }"

definition RightNeighbor :: "Tiles \<Rightarrow> int \<Rightarrow> int option" where
  "RightNeighbor g tileid =
     do {
       row \<leftarrow> idiv tileid (ncolumns g);
       let col = tileid - row * ncolumns g;
       Some (if col < ncolumns g - 1 then tileid + 1 else tileid - ncolumns g + 1)
     }"

definition LeftNeighbor :: "Tiles \<Rightarrow> int \<Rightarrow> int option" where
  "LeftNeighbor g tileid =
     do {
       row \<leftarrow> idiv tileid (ncolumns g);
       let col = tileid - row * ncolumns g;
       Some (if col > 0 then tileid - 1 else tileid + ncolumns g - 1)
     }"

text \<open>
  In \<^verbatim>\<open>(int) (TileCount() - ncolumns_)\<close> the subtraction is one of \<^verbatim>\<open>unsigned int\<close>.
\<close>

definition TopNeighbor :: "Tiles \<Rightarrow> int \<Rightarrow> int option" where
  "TopNeighbor g tileid =
     do {
       tc \<leftarrow> TileCount g;
       Some (if tileid < to_int (to_unsigned (tc - to_unsigned (ncolumns g)))
             then tileid + ncolumns g else tileid)
     }"

definition BottomNeighbor :: "Tiles \<Rightarrow> int \<Rightarrow> int" where
  "BottomNeighbor g tileid = (if tileid < ncolumns g then tileid else tileid - ncolumns g)"

subsection \<open>Listing the tiles of a box\<close>

definition InList :: "Tiles \<Rightarrow> int \<Rightarrow> bool" where
  "InList g i = (visitedtiles g i \<noteq> None)"

text \<open>
  \<^verbatim>\<open>addNeighbors\<close> runs the same three lines on each of the four neighbours;
  \<open>checkNeighbor\<close> is that block.
\<close>

definition checkNeighbor :: "int \<Rightarrow> int \<Rightarrow> Tiles \<Rightarrow> Tiles" where
  "checkNeighbor tileid neighbor g =
     (if neighbor \<noteq> tileid \<and> \<not> InList g neighbor
      then g\<lparr>checklist := checklist g @ [neighbor],
             visitedtiles := (visitedtiles g)(neighbor \<mapsto> 1)\<rparr>
      else g)"

definition addNeighbors :: "Tiles \<Rightarrow> int \<Rightarrow> Tiles option" where
  "addNeighbors g tileid =
     do {
       l \<leftarrow> LeftNeighbor g tileid;
       let g1 = checkNeighbor tileid l g;
       r \<leftarrow> RightNeighbor g1 tileid;
       let g2 = checkNeighbor tileid r g1;
       t \<leftarrow> TopNeighbor g2 tileid;
       let g3 = checkNeighbor tileid t g2;
       Some (checkNeighbor tileid (BottomNeighbor g3 tileid) g3)
     }"

text \<open>
  \<^verbatim>\<open>NextTile\<close> takes tiles off the front of the check list until one of them meets the
  box; it returns that tile, or \<open>-1\<close> when the list runs out.
\<close>

function NextTile :: "Tiles \<Rightarrow> AABB2 \<Rightarrow> (int \<times> Tiles) option" where
  "NextTile g boundingbox =
     (case checklist g of
        [] \<Rightarrow> Some (- 1, g)
      | tileid # rest \<Rightarrow>
          (case TileBounds g tileid of
             None \<Rightarrow> None
           | Some tb \<Rightarrow>
               if Intersects boundingbox tb
               then (case addNeighbors (g\<lparr>checklist := rest\<rparr>) tileid of
                       None \<Rightarrow> None
                     | Some g' \<Rightarrow> Some (tileid, g'))
               else NextTile (g\<lparr>checklist := rest\<rparr>) boundingbox))"
  by pat_completeness auto
termination
  by (relation "measure (\<lambda>(g, b). length (checklist g))") auto

declare NextTile.simps [simp del]

text \<open>
  The loop of \<^verbatim>\<open>TileList\<close>. Nothing in its text bounds the number of rounds, so it is a
  partial function: \<open>None\<close> is also the value of a run that does not end.
  \<^verbatim>\<open>maxtiles\<close> is an \<^verbatim>\<open>unsigned int\<close>.
\<close>

partial_function (option) TileList_loop :: "Tiles \<Rightarrow> AABB2 \<Rightarrow> nat \<Rightarrow> Tiles option" where
  "TileList_loop g boundingbox maxtiles =
     (case NextTile g boundingbox of
        None \<Rightarrow> None
      | Some (tileid, g1) \<Rightarrow>
          if tileid \<ge> 0
          then (let g2 = g1\<lparr>tilelist := tilelist g1 @ [tileid]\<rparr>
                in if length (tilelist g2) = maxtiles then Some g2
                   else TileList_loop g2 boundingbox maxtiles)
          else Some g1)"

definition TileList :: "Tiles \<Rightarrow> AABB2 \<Rightarrow> nat \<Rightarrow> Tiles option" where
  "TileList g boundingbox maxtiles =
     (let g0 = g\<lparr>checklist := [], tilelist := [], visitedtiles := Map.empty\<rparr> in
      case TileId g0 (AABB2_Center boundingbox) of
        None \<Rightarrow> None
      | Some tileid \<Rightarrow>
          if tileid = - 1 then Some g0
          else (let g1 = g0\<lparr>tilelist := tilelist g0 @ [tileid],
                            visitedtiles := (visitedtiles g0)(tileid \<mapsto> 1)\<rparr>
                in case addNeighbors g1 tileid of
                     None \<Rightarrow> None
                   | Some g2 \<Rightarrow> TileList_loop g2 boundingbox maxtiles))"

subsection \<open>Example grids\<close>

text \<open>The grid of the spec's scenarios: bounds \<open>(0,0)-(4,4)\<close>, tiles of size 1.\<close>

definition box4 :: AABB2 where
  "box4 = \<lparr>minx = Fin 0, miny = Fin 0, maxx = Fin 4, maxy = Fin 4\<rparr>"

definition grid4 :: Tiles where
  "grid4 = \<lparr>tilebounds = box4, tilesize = Fin 1, nrows = 4, ncolumns = 4,
            checklist = [], tilelist = [], visitedtiles = Map.empty\<rparr>"

text \<open>A query box that covers the tiles around tile 5 of that grid.\<close>

definition query4 :: AABB2 where
  "query4 = \<lparr>minx = Fin (1 / 2), miny = Fin (1 / 2), maxx = Fin (5 / 2), maxy = Fin (5 / 2)\<rparr>"

text \<open>A query box whose centre is to the right of that grid.\<close>

definition query_out :: AABB2 where
  "query_out = \<lparr>minx = Fin 3, miny = Fin 1, maxx = Fin 7, maxy = Fin 2\<rparr>"

text \<open>
  The grid with the bounds \<open>(0,0)-(1,1)\<close> and the tile size \<^verbatim>\<open>0.04f\<close>, the \<^verbatim>\<open>float\<close> nearest
  to 0.04, which is \<open>10737418 / 2\<^sup>2\<^sup>8\<close>. The quotient \<open>1 / 0.04f\<close> is rounded to 25, so the
  grid has 25 rows of 25 tiles.
\<close>

definition ts004 :: fp where
  "ts004 = Fin (10737418 / 2 ^ 28)"

definition box1 :: AABB2 where
  "box1 = \<lparr>minx = Fin 0, miny = Fin 0, maxx = Fin 1, maxy = Fin 1\<rparr>"

definition grid25 :: Tiles where
  "grid25 = \<lparr>tilebounds = box1, tilesize = ts004, nrows = 25, ncolumns = 25,
             checklist = [], tilelist = [], visitedtiles = Map.empty\<rparr>"

text \<open>The greatest \<^verbatim>\<open>float\<close> below 1, \<open>1 - 2\<^sup>-\<^sup>2\<^sup>4\<close>.\<close>

definition edge1 :: fp where
  "edge1 = Fin (16777215 / 2 ^ 24)"

text \<open>
  A grid of one row of two tiles of size 1, with the bounds \<open>x \<in> [0, 2]\<close>, \<open>y \<in> [-1, 0]\<close>,
  and a query box that is one point, a little below the upper edge of the grid.
\<close>

definition boxr :: AABB2 where
  "boxr = \<lparr>minx = Fin 0, miny = Fin (- 1), maxx = Fin 2, maxy = Fin 0\<rparr>"

definition gridr :: Tiles where
  "gridr = \<lparr>tilebounds = boxr, tilesize = Fin 1, nrows = 1, ncolumns = 2,
            checklist = [], tilelist = [], visitedtiles = Map.empty\<rparr>"

definition queryr :: AABB2 where
  "queryr = \<lparr>minx = Fin (1 / 2), miny = Fin (- (1 / 2 ^ 26)),
              maxx = Fin (1 / 2), maxy = Fin (- (1 / 2 ^ 26))\<rparr>"

text \<open>
  A grid whose bounds are small and whose tiles are large: the bounds
  \<open>(0,0)-(2\<^sup>-\<^sup>1\<^sup>0\<^sup>0, 2\<^sup>-\<^sup>1\<^sup>0\<^sup>0)\<close> and the tile size \<open>2\<^sup>1\<^sup>0\<^sup>0\<close>.
\<close>

definition boxtiny :: AABB2 where
  "boxtiny = \<lparr>minx = Fin 0, miny = Fin 0, maxx = Fin (1 / 2 ^ 100), maxy = Fin (1 / 2 ^ 100)\<rparr>"

definition gridtiny :: Tiles where
  "gridtiny = \<lparr>tilebounds = boxtiny, tilesize = Fin (2 ^ 100), nrows = 0, ncolumns = 0,
               checklist = [], tilelist = [], visitedtiles = Map.empty\<rparr>"

text \<open>
  Three states of the object in the run of \<^verbatim>\<open>TileList\<close> on that grid and box: after the
  neighbours of the first tile were added, after the first call of \<^verbatim>\<open>NextTile\<close>, and at
  the end.
\<close>

definition gridr_1 :: Tiles where
  "gridr_1 = gridr\<lparr>checklist := [3, 0], tilelist := [2],
                   visitedtiles := [2 \<mapsto> 1, 3 \<mapsto> 1, 0 \<mapsto> 1]\<rparr>"

definition gridr_2 :: Tiles where
  "gridr_2 = gridr\<lparr>checklist := [1], tilelist := [2],
                   visitedtiles := [2 \<mapsto> 1, 3 \<mapsto> 1, 0 \<mapsto> 1, 1 \<mapsto> 1]\<rparr>"

definition gridr_3 :: Tiles where
  "gridr_3 = gridr\<lparr>checklist := [], tilelist := [2, 0],
                   visitedtiles := [2 \<mapsto> 1, 3 \<mapsto> 1, 0 \<mapsto> 1, 1 \<mapsto> 1]\<rparr>"

text \<open>A grid of \<open>100000\<close> rows of \<open>100000\<close> tiles.\<close>

definition box_big :: AABB2 where
  "box_big = \<lparr>minx = Fin 0, miny = Fin 0, maxx = Fin 100000, maxy = Fin 100000\<rparr>"

definition grid_big :: Tiles where
  "grid_big = \<lparr>tilebounds = box_big, tilesize = Fin 1, nrows = 100000, ncolumns = 100000,
               checklist = [], tilelist = [], visitedtiles = Map.empty\<rparr>"





subsection \<open>Invariants of the listing\<close>

text \<open>Two objects of the class describe the same grid when they differ in the lists and
  the map of \<^verbatim>\<open>TileList\<close> only.\<close>

definition same_grid :: "Tiles \<Rightarrow> Tiles \<Rightarrow> bool" where
  "same_grid g g' =
     (tilebounds g' = tilebounds g \<and> tilesize g' = tilesize g \<and>
      nrows g' = nrows g \<and> ncolumns g' = ncolumns g)"

text \<open>No tile is twice in the result and the check list taken together, and all their
  tiles are marked as visited.\<close>

definition queue_inv :: "Tiles \<Rightarrow> bool" where
  "queue_inv g =
     (distinct (tilelist g @ checklist g) \<and>
      set (tilelist g) \<union> set (checklist g) \<subseteq> dom (visitedtiles g))"


text \<open>
  The four neighbours of each tile id from \<open>lo\<close> up to \<open>hi\<close>, \<open>hi\<close> excluded, are
  defined and lie in that range.
\<close>

definition closed_ids :: "Tiles \<Rightarrow> int \<Rightarrow> int \<Rightarrow> bool" where
  "closed_ids g lo hi =
     (\<forall>t. lo \<le> t \<and> t < hi \<longrightarrow>
        (\<exists>l. LeftNeighbor g t = Some l \<and> lo \<le> l \<and> l < hi) \<and>
        (\<exists>r. RightNeighbor g t = Some r \<and> lo \<le> r \<and> r < hi) \<and>
        (\<exists>u. TopNeighbor g t = Some u \<and> lo \<le> u \<and> u < hi) \<and>
        lo \<le> BottomNeighbor g t \<and> BottomNeighbor g t < hi)"

text \<open>The tile ids of the range that are not yet visited, and those that wait in the check
  list: a bound on the tiles that \<^verbatim>\<open>NextTile\<close> can still take off the list.\<close>

definition work_left :: "int \<Rightarrow> int \<Rightarrow> Tiles \<Rightarrow> nat" where
  "work_left lo hi g = card ({lo..<hi} - dom (visitedtiles g)) + length (checklist g)"

text \<open>The check list and the visited tiles lie in the range.\<close>

definition list_inv :: "int \<Rightarrow> int \<Rightarrow> Tiles \<Rightarrow> bool" where
  "list_inv lo hi g = (set (checklist g) \<subseteq> {lo..<hi} \<and> dom (visitedtiles g) \<subseteq> {lo..<hi})"

section \<open>Properties\<close>

subsection \<open>Floating-point numbers\<close>

lemma pow2_powi: "pow2 k = 2 powi k"
  by (simp add: pow2_def power_int_def inverse_eq_divide power_one_over)

lemma pow2_pos: "0 < pow2 k"
  by (simp add: pow2_def)

lemma pow2_add: "pow2 (a + b) = pow2 a * pow2 b"
  by (simp add: pow2_powi power_int_add)

lemma pow2_nonneg_exp: "0 \<le> k \<Longrightarrow> pow2 k = of_int (2 ^ nat k)"
  by (simp add: pow2_def)

lemma pow2_mono: "a \<le> b \<Longrightarrow> pow2 a \<le> pow2 b"
  by (simp add: pow2_powi power_int_increasing)

lemma rne_of_int: "rne (of_int z) = z"
  by (simp add: rne_def)

lemma rne_nonneg: "0 \<le> r \<Longrightarrow> 0 \<le> rne r"
  by (auto simp: rne_def Let_def)

lemma bits_nonneg: "0 \<le> bits n"
proof (induction n rule: bits.induct)
  case (1 n)
  then show ?case by (subst bits.simps) auto
qed

lemma bits_le: "n < 2 ^ j \<Longrightarrow> bits n \<le> int j"
proof (induction j arbitrary: n)
  case 0
  then show ?case by (subst bits.simps) simp
next
  case (Suc j)
  show ?case
  proof (cases "n \<le> 0")
    case True
    then show ?thesis by (subst bits.simps) simp
  next
    case False
    have "n div 2 < 2 ^ j" using Suc.prems by simp
    then have "bits (n div 2) \<le> int j" by (rule Suc.IH)
    then show ?thesis using False by (subst bits.simps) simp
  qed
qed

lemma div_pow2:
  assumes "K \<le> k"
  shows "of_int m * pow2 k / pow2 K = of_int (m * 2 ^ nat (k - K))"
proof -
  have "pow2 k = pow2 (k - K) * pow2 K" using pow2_add [of "k - K" K] by simp
  then have "of_int m * pow2 k / pow2 K = of_int m * pow2 (k - K)"
    using pow2_pos [of K] by simp
  then show ?thesis using assms by (simp add: pow2_nonneg_exp)
qed

lemma mult_pow2:
  assumes "K \<le> k"
  shows "of_int (m * 2 ^ nat (k - K)) * pow2 K = of_int m * pow2 k"
proof -
  have "pow2 k = pow2 (k - K) * pow2 K" using pow2_add [of "k - K" K] by simp
  then show ?thesis using assms by (simp add: pow2_nonneg_exp)
qed

lemma ulp_exp_le:
  assumes p: "0 \<le> p" and m: "\<bar>m\<bar> < 2 ^ nat p" and k: "emin - p + 1 \<le> k"
  shows "ulp_exp p emin (of_int m * pow2 k) \<le> k"
proof -
  let ?s = "emin - p + 1"
  let ?x = "of_int m * pow2 k"
  let ?n = "\<lfloor>\<bar>?x\<bar> * pow2 (- ?s)\<rfloor>"
  have "\<bar>?x\<bar> = of_int \<bar>m\<bar> * pow2 k"
    using pow2_pos [of k] by (simp add: abs_mult)
  moreover have "of_int \<bar>m\<bar> * pow2 k * pow2 (- ?s) = of_int \<bar>m\<bar> * pow2 k / pow2 ?s"
    using pow2_add [of ?s "- ?s"] pow2_pos [of ?s] by (simp add: field_simps pow2_def)
  ultimately have "\<bar>?x\<bar> * pow2 (- ?s) = of_int (\<bar>m\<bar> * 2 ^ nat (k - ?s))"
    using div_pow2 [OF k, of "\<bar>m\<bar>"] by simp
  then have n: "?n = \<bar>m\<bar> * 2 ^ nat (k - ?s)" by (simp only: floor_of_int)
  have "\<bar>m\<bar> * 2 ^ nat (k - ?s) < 2 ^ nat p * 2 ^ nat (k - ?s)"
    using m by simp
  also have "\<dots> = 2 ^ (nat p + nat (k - ?s))" by (simp add: power_add)
  finally have "bits ?n \<le> int (nat p + nat (k - ?s))" unfolding n by (rule bits_le)
  then have "bits ?n - p \<le> k - ?s" using p k by simp
  then show ?thesis using k by (simp add: ulp_exp_def Let_def)
qed

lemma round_fp_exact:
  assumes p: "0 \<le> p" and m: "\<bar>m\<bar> < 2 ^ nat p" and k: "emin - p + 1 \<le> k"
    and b: "\<bar>of_int m * pow2 k\<bar> < pow2 (emax + 1)"
  shows "round_fp p emin emax (of_int m * pow2 k) = Fin (of_int m * pow2 k)"
proof -
  define K where "K = ulp_exp p emin (of_int m * pow2 k)"
  have K: "K \<le> k" unfolding K_def using p m k by (rule ulp_exp_le)
  have "rne (of_int m * pow2 k / pow2 K) = m * 2 ^ nat (k - K)"
    by (simp only: div_pow2 [OF K] rne_of_int)
  then have "of_int (rne (of_int m * pow2 k / pow2 K)) * pow2 K = of_int m * pow2 k"
    by (simp only: mult_pow2 [OF K])
  then show ?thesis
    unfolding round_fp_def Let_def K_def [symmetric] using b by simp
qed

lemma float32_exact:
  assumes "\<bar>m\<bar> < 2 ^ 24" "- 149 \<le> k" "k \<le> 104"
  shows "float32 (of_int m * pow2 k) = Fin (of_int m * pow2 k)"
proof -
  have "\<bar>of_int m * pow2 k\<bar> = of_int \<bar>m\<bar> * pow2 k"
    using pow2_pos [of k] by (simp add: abs_mult)
  also have "\<dots> < 2 ^ 24 * pow2 k"
    using assms(1) pow2_pos [of k] by (intro mult_strict_right_mono) (simp_all flip: of_int_less_iff)
  also have "\<dots> = pow2 (24 + k)"
  proof -
    have "(2::real) ^ 24 = pow2 24" by (simp add: pow2_def)
    then show ?thesis by (simp only: pow2_add)
  qed
  also have "\<dots> \<le> pow2 128" using assms(3) by (intro pow2_mono) simp
  finally have "\<bar>of_int m * pow2 k\<bar> < pow2 (127 + 1)" by simp
  then show ?thesis
    unfolding float32_def using assms by (intro round_fp_exact) simp_all
qed


lemma round_fp_nonneg:
  assumes "0 \<le> x"
  shows "round_fp p emin emax x = PInf \<or> (\<exists>r. round_fp p emin emax x = Fin r \<and> 0 \<le> r)"
proof -
  let ?K = "ulp_exp p emin x"
  have "0 \<le> x / pow2 ?K" using assms pow2_pos [of ?K] by simp
  then have "0 \<le> rne (x / pow2 ?K)" by (rule rne_nonneg)
  then have "0 \<le> of_int (rne (x / pow2 ?K)) * pow2 ?K"
    using pow2_pos [of ?K] by simp
  then show ?thesis using assms by (simp add: round_fp_def Let_def)
qed

text \<open>Values with few digits are values of the formats: rounding leaves them as they are.\<close>

lemma float32_scaled:
  assumes "of_int \<lfloor>x / pow2 k\<rfloor> = x / pow2 k" "\<bar>x / pow2 k\<bar> < 2 ^ 24" "- 149 \<le> k" "k \<le> 104"
  shows "float32 x = Fin x"
proof -
  let ?m = "\<lfloor>x / pow2 k\<rfloor>"
  have "of_int ?m * pow2 k = x / pow2 k * pow2 k" by (simp only: assms(1))
  then have x: "x = of_int ?m * pow2 k" using pow2_pos [of k] by simp
  have "real_of_int \<bar>?m\<bar> = \<bar>x / pow2 k\<bar>" by (simp only: of_int_abs assms(1))
  then have "real_of_int \<bar>?m\<bar> < 2 ^ 24" using assms(2) by (simp only:)
  then have "\<bar>?m\<bar> < 2 ^ 24" by (simp flip: of_int_less_iff)
  then have "float32 (of_int ?m * pow2 k) = Fin (of_int ?m * pow2 k)"
    using assms(3,4) by (rule float32_exact)
  then show ?thesis using x by simp
qed


lemma float32_halves:
  "of_int \<lfloor>x * 2\<rfloor> = x * 2 \<Longrightarrow> \<bar>x * 2\<bar> < 2 ^ 24 \<Longrightarrow> float32 x = Fin x"
  using float32_scaled [of x "- 1"] by (simp add: pow2_def)



lemma float32_tiny:
  "of_int \<lfloor>x * 2 ^ 26\<rfloor> = x * 2 ^ 26 \<Longrightarrow> \<bar>x * 2 ^ 26\<bar> < 2 ^ 24 \<Longrightarrow> float32 x = Fin x"
  using float32_scaled [of x "- 26"] by (simp add: pow2_def)

subsection \<open>Evaluation on concrete inputs\<close>

text \<open>The simplifier runs the functions on concrete inputs when it rewrites the argument
  of a \<open>bind\<close>, a \<open>let\<close> or a \<open>case\<close> before it looks at the body.\<close>

lemma bind_weak_cong: "m = m' \<Longrightarrow> Option.bind m f = Option.bind m' f"
  by simp

lemmas fp_eval = float32_def float64_def round_fp_def ulp_exp_def rne_def pow2_def bits.simps

lemmas eval_defs = TileList_def TileId_def TileId_yx_def AABB2_Center_def mkPoint2_def mkAABB2_def
  Row_def Col_def fp_sub_def fp_eq_def fp_ge_def int_to_float_def is_int_def
  idiv_def to_unsigned_def to_int_def
  addNeighbors_def checkNeighbor_def InList_def LeftNeighbor_def RightNeighbor_def TopNeighbor_def
  BottomNeighbor_def TileCount_def TileBounds_def Base_def Center_def Intersects_def Let_def
  NextTile.simps TileList_loop.simps

lemmas eval_congs = bind_weak_cong let_weak_cong prod.case_cong_weak

text \<open>Two roundings: \<^verbatim>\<open>0.04f\<close> is the \<^verbatim>\<open>float\<close> nearest to 0.04, and \<open>1 - 2\<^sup>-\<^sup>2\<^sup>6\<close> is rounded
  to 1.\<close>

lemma ts004_float: "float32 (4 / 100) = ts004"
  by (simp add: ts004_def fp_eval cong: let_weak_cong)

lemma float32_below_1: "float32 (67108863 / 67108864) = Fin 1"
  by (simp add: fp_eval cong: let_weak_cong)

lemmas exact32 = float32_halves float32_tiny float32_below_1

subsection \<open>Arithmetic\<close>

lemma idiv_nonneg: "0 \<le> a \<Longrightarrow> 0 < b \<Longrightarrow> idiv a b = Some (a div b)"
  by (simp add: idiv_def sgn_if)

lemma idiv_row_col:
  assumes "0 < n" "0 \<le> r" "0 \<le> c" "c < n"
  shows "idiv (r * n + c) n = Some r"
proof -
  have "0 \<le> r * n + c" using assms by simp
  moreover have "(r * n + c) div n = r" using assms by simp
  ultimately show ?thesis using assms(1) by (simp add: idiv_nonneg)
qed

lemma tile_decompose:
  assumes "0 < n" "0 \<le> (t::int)"
  obtains r c where "t = r * n + c" "0 \<le> r" "0 \<le> c" "c < n"
proof
  show "t = (t div n) * n + t mod n" by simp
  show "0 \<le> t div n" using assms by (simp add: pos_imp_zdiv_nonneg_iff)
  show "0 \<le> t mod n" using assms by simp
  show "t mod n < n" using assms by simp
qed

lemma to_int_to_unsigned:
  assumes "is_int z"
  shows "to_int (to_unsigned z) = z"
proof (cases "0 \<le> z")
  case True
  then have "z mod 2 ^ 32 = z" using assms by (simp add: is_int_def)
  then show ?thesis using assms by (simp add: to_int_def to_unsigned_def is_int_def)
next
  case False
  then have "(z + 2 ^ 32) mod 2 ^ 32 = z + 2 ^ 32"
    using assms by (intro mod_pos_pos_trivial) (simp_all add: is_int_def)
  then have "z mod 2 ^ 32 = z + 2 ^ 32" by simp
  then show ?thesis using assms False by (simp add: to_int_def to_unsigned_def is_int_def)
qed

lemma to_unsigned_diff: "to_unsigned (a - to_unsigned b) = to_unsigned (a - b)"
  by (simp add: to_unsigned_def mod_diff_right_eq)

lemma tile_id_bounds:
  fixes r c n m :: int
  assumes "0 \<le> r" "r < m" "0 \<le> c" "c < n"
  shows "0 \<le> r * n + c" and "r * n + c \<le> n * m - 1"
proof -
  show "0 \<le> r * n + c" using assms by simp
  have "r * n \<le> (m - 1) * n" using assms by (intro mult_right_mono) simp_all
  then show "r * n + c \<le> n * m - 1" using assms by (simp add: algebra_simps)
qed

subsection \<open>The constructor and the example grid\<close>

lemma mkTiles_grid4: "mkTiles box4 (Fin 1) = Some grid4"
  by (simp add: mkTiles_def box4_def grid4_def fp_sub_def is_int_def float32_halves)

lemma TileCount_grid4: "TileCount grid4 = Some 16"
  by (simp add: TileCount_def box4_def grid4_def fp_sub_def is_int_def to_unsigned_def
      float32_halves)

lemma TileCount_mkTiles:
  assumes "mkTiles b ts = Some g"
  shows "TileCount g = Some (to_unsigned (ncolumns g * nrows g))"
  using assms by (auto simp: mkTiles_def TileCount_def split: bind_splits)

lemma mkTiles_grid25: "mkTiles box1 ts004 = Some grid25"
  by (simp add: mkTiles_def box1_def grid25_def ts004_def fp_sub_def is_int_def fp_eval
      cong: let_weak_cong bind_weak_cong)

lemma mkTiles_gridr: "mkTiles boxr (Fin 1) = Some gridr"
  by (simp add: mkTiles_def boxr_def gridr_def fp_sub_def is_int_def exact32)

lemma TileCount_gridr: "TileCount gridr = Some 2"
  by (simp add: TileCount_def boxr_def gridr_def fp_sub_def is_int_def to_unsigned_def exact32)

lemma mkTiles_gridtiny: "mkTiles boxtiny (Fin (2 ^ 100)) = Some gridtiny"
  by (simp add: mkTiles_def boxtiny_def gridtiny_def fp_sub_def is_int_def fp_eval
      cong: let_weak_cong bind_weak_cong)

subsection \<open>Rows and columns of coordinates\<close>

lemma fp_lt_irrefl: "\<not> fp_lt a a"
  by (cases a) simp_all

lemma fp_lt_asym: "fp_lt a b \<Longrightarrow> \<not> fp_lt b a"
  by (cases a; cases b) simp_all

lemma fp_lt_not_NaN: "fp_lt a b \<Longrightarrow> a \<noteq> NaN \<and> b \<noteq> NaN"
  by (cases a; cases b) simp_all

lemma float32_not_neg: "0 \<le> x \<Longrightarrow> \<not> fp_lt (float32 x) (Fin 0)"
  using round_fp_nonneg [of x 24 "- 126" 127] by (auto simp: float32_def)

lemma fp_sub_not_neg: "\<not> fp_lt y m \<Longrightarrow> \<not> fp_lt (fp_sub float32 y m) (Fin 0)"
  by (cases y; cases m) (simp_all add: fp_sub_def float32_not_neg)

lemma fp_div_not_neg:
  "fp_lt (Fin 0) t \<Longrightarrow> \<not> fp_lt d (Fin 0) \<Longrightarrow> \<not> fp_lt (fp_div float32 d t) (Fin 0)"
  by (cases d; cases t) (simp_all add: float32_not_neg)

lemma fp_to_int_not_neg: "\<not> fp_lt q (Fin 0) \<Longrightarrow> fp_to_int q = Some i \<Longrightarrow> 0 \<le> i"
  by (cases q) (auto simp: Let_def split: if_splits)

lemma fp_to_int_ge: "fp_to_int q = Some i \<Longrightarrow> \<not> fp_lt q (Fin 0) \<Longrightarrow> fp_ge q (Fin 0)"
  by (cases q) (auto simp: fp_ge_def fp_eq_def)

lemma Row_max:
  assumes "fp_lt (miny (tilebounds g)) (maxy (tilebounds g))"
  shows "Row g (maxy (tilebounds g)) = Some (nrows g - 1)"
  using fp_lt_asym [OF assms] fp_lt_not_NaN [OF assms]
  by (simp add: Row_def fp_lt_irrefl fp_eq_def)

lemma Col_max:
  assumes "fp_lt (minx (tilebounds g)) (maxx (tilebounds g))"
  shows "Col g (maxx (tilebounds g)) = Some (ncolumns g - 1)"
  using fp_lt_asym [OF assms] fp_lt_not_NaN [OF assms]
  by (simp add: Col_def fp_lt_irrefl fp_eq_def)

lemma Row_inside_not_neg:
  assumes ts: "fp_lt (Fin 0) (tilesize g)" and n: "1 \<le> nrows g"
    and y: "\<not> fp_lt y (miny (tilebounds g))" "\<not> fp_lt (maxy (tilebounds g)) y"
    and r: "Row g y = Some r"
  shows "0 \<le> r"
proof (cases "fp_eq y (maxy (tilebounds g))")
  case True
  with y r n show ?thesis by (simp add: Row_def)
next
  case False
  let ?q = "fp_div float32 (fp_sub float32 y (miny (tilebounds g))) (tilesize g)"
  from False y r have "fp_to_int ?q = Some r" by (simp add: Row_def)
  moreover have "\<not> fp_lt ?q (Fin 0)"
    using ts y(1) by (intro fp_div_not_neg fp_sub_not_neg)
  ultimately show ?thesis by (rule fp_to_int_not_neg [rotated])
qed

lemma Col_inside_not_neg:
  assumes ts: "fp_lt (Fin 0) (tilesize g)" and n: "1 \<le> ncolumns g"
    and x: "\<not> fp_lt x (minx (tilebounds g))" "\<not> fp_lt (maxx (tilebounds g)) x"
    and c: "Col g x = Some c"
  shows "0 \<le> c"
proof (cases "fp_eq x (maxx (tilebounds g))")
  case True
  with x c n show ?thesis by (simp add: Col_def)
next
  case False
  let ?q = "fp_div float32 (fp_sub float32 x (minx (tilebounds g))) (tilesize g)"
  have nn: "\<not> fp_lt ?q (Fin 0)"
    using ts x(1) by (intro fp_div_not_neg fp_sub_not_neg)
  from False x c obtain i where i: "fp_to_int ?q = Some i"
    and ci: "c = (if fp_ge ?q (Fin 0) then i else i - 1)"
    by (auto simp: Col_def Let_def split: bind_splits)
  have "fp_ge ?q (Fin 0)" using i nn by (rule fp_to_int_ge)
  then have "c = i" using ci by simp
  then show ?thesis using fp_to_int_not_neg [OF nn i] by simp
qed

text \<open>
  Claim C4, as stated: on a grid with a positive tile size and \<open>minx < maxx\<close>,
  \<open>miny < maxy\<close>, \<open>Row\<close> returns \<open>-1\<close> exactly when \<open>y\<close> is below \<open>miny\<close> or above \<open>maxy\<close>
  (and \<open>Col\<close> alike). It fails when the constructor counts no row: for the bounds
  \<open>(0,0)-(2\<^sup>-\<^sup>1\<^sup>0\<^sup>0, 2\<^sup>-\<^sup>1\<^sup>0\<^sup>0)\<close> and the tile size \<open>2\<^sup>1\<^sup>0\<^sup>0\<close>, all of them values of \<^verbatim>\<open>float\<close>, the
  quotient \<open>2\<^sup>-\<^sup>2\<^sup>0\<^sup>0\<close> is below the least positive \<^verbatim>\<open>float\<close> and is rounded to 0, so
  \<open>nrows\<close> and \<open>ncolumns\<close> are 0. Then \<open>Row\<close> returns \<open>nrows - 1 = -1\<close> for \<open>y = maxy\<close>, which
  is not outside the bounds.
\<close>

theorem Row_Col_edges_counterexample:
  "mkTiles boxtiny (Fin (2 ^ 100)) = Some gridtiny \<and> fp_lt (Fin 0) (Fin (2 ^ 100)) \<and>
   fp_lt (minx boxtiny) (maxx boxtiny) \<and> fp_lt (miny boxtiny) (maxy boxtiny) \<and>
   Row gridtiny (maxy boxtiny) = Some (- 1) \<and>
   \<not> fp_lt (maxy boxtiny) (miny boxtiny) \<and> \<not> fp_lt (maxy boxtiny) (maxy boxtiny) \<and>
   Col gridtiny (maxx boxtiny) = Some (- 1) \<and>
   \<not> fp_lt (maxx boxtiny) (minx boxtiny) \<and> \<not> fp_lt (maxx boxtiny) (maxx boxtiny)"
proof -
  have "Row gridtiny (maxy boxtiny) = Some (- 1)" "Col gridtiny (maxx boxtiny) = Some (- 1)"
    "fp_lt (minx boxtiny) (maxx boxtiny)" "fp_lt (miny boxtiny) (maxy boxtiny)"
    by (simp_all add: gridtiny_def boxtiny_def Row_def Col_def fp_eq_def)
  then show ?thesis
    using mkTiles_gridtiny by (simp add: fp_lt_irrefl fp_lt_asym)
qed

text \<open>
  Claim C4, amended: on a grid with a positive tile size, \<open>minx < maxx\<close>, \<open>miny < maxy\<close>,
  at least one row and at least one column, \<open>Row\<close> returns \<open>nrows - 1\<close> for \<open>y = maxy\<close> and
  \<open>Col\<close> returns \<open>ncolumns - 1\<close> for \<open>x = maxx\<close>; \<open>Row\<close> returns \<open>-1\<close> exactly when \<open>y\<close> is
  below \<open>miny\<close> or above \<open>maxy\<close>, and \<open>Col\<close> returns \<open>-1\<close> exactly when \<open>x\<close> is below \<open>minx\<close>
  or above \<open>maxx\<close>. The comparisons are those of \<^verbatim>\<open>float\<close>.
\<close>

theorem Row_Col_edges:
  assumes "fp_lt (Fin 0) (tilesize g)"
    and "fp_lt (minx (tilebounds g)) (maxx (tilebounds g))"
    and "fp_lt (miny (tilebounds g)) (maxy (tilebounds g))"
    and "1 \<le> nrows g" and "1 \<le> ncolumns g"
  shows "Row g (maxy (tilebounds g)) = Some (nrows g - 1) \<and>
         Col g (maxx (tilebounds g)) = Some (ncolumns g - 1) \<and>
         (Row g y = Some (- 1)) = (fp_lt y (miny (tilebounds g)) \<or> fp_lt (maxy (tilebounds g)) y) \<and>
         (Col g x = Some (- 1)) = (fp_lt x (minx (tilebounds g)) \<or> fp_lt (maxx (tilebounds g)) x)"
proof (intro conjI)
  show "Row g (maxy (tilebounds g)) = Some (nrows g - 1)" using assms(3) by (rule Row_max)
  show "Col g (maxx (tilebounds g)) = Some (ncolumns g - 1)" using assms(2) by (rule Col_max)
  show "(Row g y = Some (- 1)) = (fp_lt y (miny (tilebounds g)) \<or> fp_lt (maxy (tilebounds g)) y)"
  proof
    assume r: "Row g y = Some (- 1)"
    show "fp_lt y (miny (tilebounds g)) \<or> fp_lt (maxy (tilebounds g)) y"
    proof (rule ccontr)
      assume "\<not> ?thesis"
      then have "0 \<le> (- 1 :: int)"
        using Row_inside_not_neg [OF assms(1) assms(4) _ _ r] by simp
      then show False by simp
    qed
  next
    assume "fp_lt y (miny (tilebounds g)) \<or> fp_lt (maxy (tilebounds g)) y"
    then show "Row g y = Some (- 1)" by (simp add: Row_def)
  qed
  show "(Col g x = Some (- 1)) = (fp_lt x (minx (tilebounds g)) \<or> fp_lt (maxx (tilebounds g)) x)"
  proof
    assume c: "Col g x = Some (- 1)"
    show "fp_lt x (minx (tilebounds g)) \<or> fp_lt (maxx (tilebounds g)) x"
    proof (rule ccontr)
      assume "\<not> ?thesis"
      then have "0 \<le> (- 1 :: int)"
        using Col_inside_not_neg [OF assms(1) assms(5) _ _ c] by simp
      then show False by simp
    qed
  next
    assume "fp_lt x (minx (tilebounds g)) \<or> fp_lt (maxx (tilebounds g)) x"
    then show "Col g x = Some (- 1)" by (simp add: Col_def)
  qed
qed

theorem Row_Col_edges_witness:
  "fp_lt (Fin 0) (tilesize grid4) \<and>
   fp_lt (minx (tilebounds grid4)) (maxx (tilebounds grid4)) \<and>
   fp_lt (miny (tilebounds grid4)) (maxy (tilebounds grid4)) \<and>
   1 \<le> nrows grid4 \<and> 1 \<le> ncolumns grid4 \<and>
   Row grid4 (Fin 4) = Some 3 \<and> Col grid4 (Fin 4) = Some 3 \<and>
   Row grid4 (Fin 5) = Some (- 1) \<and> Col grid4 (Fin (- 1)) = Some (- 1) \<and>
   Row grid4 (Fin (5 / 2)) \<noteq> Some (- 1) \<and> Col grid4 (Fin 0) \<noteq> Some (- 1)"
proof -
  have h: "fp_lt (Fin 0) (tilesize grid4)"
    "fp_lt (minx (tilebounds grid4)) (maxx (tilebounds grid4))"
    "fp_lt (miny (tilebounds grid4)) (maxy (tilebounds grid4))"
    "1 \<le> nrows grid4" "1 \<le> ncolumns grid4"
    by (simp_all add: grid4_def box4_def)
  have b: "maxy (tilebounds grid4) = Fin 4" "maxx (tilebounds grid4) = Fin 4"
    "miny (tilebounds grid4) = Fin 0" "minx (tilebounds grid4) = Fin 0"
    "nrows grid4 = 4" "ncolumns grid4 = 4"
    by (simp_all add: grid4_def box4_def)
  show ?thesis
    using h Row_Col_edges [OF h, of "Fin 5" "Fin (- 1)"]
      Row_Col_edges [OF h, of "Fin (5 / 2)" "Fin 0"]
    by (simp add: b)
qed

subsection \<open>From a tile to its centre and back\<close>






















subsection \<open>Tile ids of points\<close>

text \<open>
  Claim C5: on a grid with a positive tile size and \<open>minx < maxx\<close>, \<open>miny < maxy\<close>, the
  tile id of a point is \<open>-1\<close> or lies in \<open>0 .. TileCount() - 1\<close>. The code breaks it. The
  grid with the bounds \<open>(0,0)-(1,1)\<close> and the tile size \<^verbatim>\<open>0.04f\<close> has 25 rows of 25 tiles,
  and \<open>TileCount\<close> is 625. For \<open>y = 1 - 2\<^sup>-\<^sup>2\<^sup>4\<close>, the greatest \<^verbatim>\<open>float\<close> below \<open>maxy = 1\<close>, the
  quotient \<open>(y - miny) / tilesize\<close> is rounded to 25, so \<open>Row\<close> gives 25, one more than the
  last row, and the tile id of the point \<open>(y, y)\<close> is \<open>25 * 25 + 25 = 650\<close>. \<open>Row\<close> and
  \<open>Col\<close> return the last row and column for a coordinate equal to the maximum, in a
  branch of its own, but not for the coordinates below it whose quotient is rounded up to
  the count.
\<close>

theorem TileId_beyond_TileCount:
  "mkTiles box1 ts004 = Some grid25 \<and> TileCount grid25 = Some 625 \<and>
   fp_lt (Fin 0) ts004 \<and> fp_lt (miny box1) edge1 \<and> fp_lt edge1 (maxy box1) \<and>
   TileId grid25 (mkPoint2 edge1 edge1) = Some 650"
  by (simp add: mkTiles_grid25)
    (simp add: grid25_def box1_def ts004_def edge1_def eval_defs fp_eval cong: eval_congs)

subsection \<open>Neighbours\<close>

lemma RightNeighbor_rc:
  assumes "0 < ncolumns g" "0 \<le> r" "0 \<le> c" "c < ncolumns g"
  shows "RightNeighbor g (r * ncolumns g + c) =
         Some (if c < ncolumns g - 1 then r * ncolumns g + (c + 1) else r * ncolumns g)"
  using assms by (simp add: RightNeighbor_def idiv_row_col)

lemma LeftNeighbor_rc:
  assumes "0 < ncolumns g" "0 \<le> r" "0 \<le> c" "c < ncolumns g"
  shows "LeftNeighbor g (r * ncolumns g + c) =
         Some (if 0 < c then r * ncolumns g + (c - 1) else r * ncolumns g + (ncolumns g - 1))"
  using assms by (simp add: LeftNeighbor_def idiv_row_col)



lemma TileCount_range: "TileCount g = Some tc \<Longrightarrow> 0 \<le> tc \<and> tc < 2 ^ 32"
  by (auto simp: TileCount_def to_unsigned_def split: bind_splits)

lemma TopNeighbor_Some:
  assumes "TileCount g = Some tc" "is_int (tc - ncolumns g)"
  shows "TopNeighbor g t = Some (if t < tc - ncolumns g then t + ncolumns g else t)"
  using assms by (simp add: TopNeighbor_def to_unsigned_diff to_int_to_unsigned)

text \<open>
  Claim C9. The bottom neighbour of a tile id \<open>t\<close> of row 0 (\<open>t < columnCount\<close>) is \<open>t\<close>,
  and the top neighbour of a tile id \<open>t\<close> of the last row is \<open>t\<close>. The vertical
  neighbours do not wrap around: the bottom neighbour is \<open>t\<close> or \<open>t - columnCount\<close>, the
  top neighbour is \<open>t\<close> or \<open>t + columnCount\<close>. (\<open>t\<close> and the number of columns are values
  of \<^verbatim>\<open>int\<close>.)
\<close>

theorem vertical_neighbors_no_wrap:
  assumes "is_int t" and "is_int (ncolumns g)"
  shows "(t < ncolumns g \<longrightarrow> BottomNeighbor g t = t) \<and>
         (\<forall>tc. TileCount g = Some tc \<and> tc - ncolumns g \<le> t \<and> t < tc \<longrightarrow>
               TopNeighbor g t = Some t) \<and>
         (BottomNeighbor g t = t \<or> BottomNeighbor g t = t - ncolumns g) \<and>
         (\<forall>u. TopNeighbor g t = Some u \<longrightarrow> u = t \<or> u = t + ncolumns g)"
proof -
  have "TopNeighbor g t = Some t"
    if tc: "TileCount g = Some tc" and le: "tc - ncolumns g \<le> t" for tc
  proof -
    have "0 \<le> tc" using TileCount_range [OF tc] by simp
    then have "is_int (tc - ncolumns g)" using assms le by (simp add: is_int_def)
    then show ?thesis using TopNeighbor_Some [OF tc] le by simp
  qed
  moreover have "u = t \<or> u = t + ncolumns g" if "TopNeighbor g t = Some u" for u
    using that by (auto simp: TopNeighbor_def split: bind_splits if_splits)
  ultimately show ?thesis by (simp add: BottomNeighbor_def)
qed

theorem vertical_neighbors_no_wrap_witness:
  "is_int 2 \<and> is_int 13 \<and> is_int (ncolumns grid4) \<and> (2::int) < ncolumns grid4 \<and>
   BottomNeighbor grid4 2 = 2 \<and>
   TileCount grid4 = Some 16 \<and> 16 - ncolumns grid4 \<le> 13 \<and> (13::int) < 16 \<and>
   TopNeighbor grid4 13 = Some 13 \<and>
   BottomNeighbor grid4 13 = 13 - ncolumns grid4 \<and>
   TopNeighbor grid4 2 = Some (2 + ncolumns grid4)"
proof -
  have h: "is_int 2" "is_int 13" "is_int (ncolumns grid4)"
    by (simp_all add: is_int_def grid4_def)
  have nc: "ncolumns grid4 = 4"
    by (simp add: grid4_def)
  have t: "TopNeighbor grid4 2 = Some 6"
    using TopNeighbor_Some [OF TileCount_grid4, of 2] by (simp add: is_int_def nc)
  have b: "BottomNeighbor grid4 13 = 9"
    by (simp add: BottomNeighbor_def nc)
  show ?thesis
    using h t b TileCount_grid4 vertical_neighbors_no_wrap [OF h(1,3)]
      vertical_neighbors_no_wrap [OF h(2,3)]
    by (simp add: nc)
qed

subsection \<open>A query box centred outside the grid\<close>

text \<open>
  Claim C3. When the centre of the query box lies outside the bounds of the grid,
  \<open>TileList\<close> returns, and returns the empty list, whatever \<open>maxtiles\<close> is.
\<close>

theorem TileList_center_outside:
  assumes "fp_lt (pty (AABB2_Center q)) (miny (tilebounds g)) \<or>
           fp_lt (ptx (AABB2_Center q)) (minx (tilebounds g)) \<or>
           fp_lt (maxy (tilebounds g)) (pty (AABB2_Center q)) \<or>
           fp_lt (maxx (tilebounds g)) (ptx (AABB2_Center q))"
  shows "\<exists>g'. TileList g q maxtiles = Some g' \<and> tilelist g' = []"
  using assms by (simp add: TileList_def TileId_def TileId_yx_def)

theorem TileList_center_outside_witness:
  "fp_lt (maxx (tilebounds grid4)) (ptx (AABB2_Center query_out)) \<and>
   (\<exists>g'. TileList grid4 query_out 10 = Some g' \<and> tilelist g' = [])"
proof -
  have h: "fp_lt (maxx (tilebounds grid4)) (ptx (AABB2_Center query_out))"
    by (simp add: AABB2_Center_def mkPoint2_def grid4_def box4_def query_out_def float32_halves)
  show ?thesis
    using h TileList_center_outside [of query_out grid4 10] by blast
qed

subsection \<open>The lists of \<^verbatim>\<open>TileList\<close>\<close>

lemma same_grid_refl: "same_grid g g"
  by (simp add: same_grid_def)

lemma same_grid_trans: "same_grid g g' \<Longrightarrow> same_grid g' g'' \<Longrightarrow> same_grid g g''"
  by (simp add: same_grid_def)

lemma same_grid_checkNeighbor: "same_grid g (checkNeighbor t n g)"
  by (simp add: same_grid_def checkNeighbor_def)

lemma same_grid_funs:
  assumes "same_grid g g'"
  shows "LeftNeighbor g' t = LeftNeighbor g t" "RightNeighbor g' t = RightNeighbor g t"
    "TopNeighbor g' t = TopNeighbor g t" "BottomNeighbor g' t = BottomNeighbor g t"
    "TileBounds g' t = TileBounds g t" "TileCount g' = TileCount g"
  using assms
  by (simp_all add: same_grid_def LeftNeighbor_def RightNeighbor_def TopNeighbor_def
      BottomNeighbor_def TileBounds_def Base_def TileCount_def cong: if_cong)

text \<open>\<^verbatim>\<open>addNeighbors\<close> is four checks, on the neighbours in the grid it starts from.\<close>

lemma addNeighbors_eq:
  "addNeighbors g t =
     do {
       l \<leftarrow> LeftNeighbor g t;
       r \<leftarrow> RightNeighbor g t;
       u \<leftarrow> TopNeighbor g t;
       Some (checkNeighbor t (BottomNeighbor g t)
              (checkNeighbor t u (checkNeighbor t r (checkNeighbor t l g))))
     }"
proof -
  have s1: "same_grid g (checkNeighbor t l g)" for l
    by (rule same_grid_checkNeighbor)
  have s2: "same_grid g (checkNeighbor t r (checkNeighbor t l g))" for l r
    using s1 same_grid_checkNeighbor by (rule same_grid_trans)
  have s3: "same_grid g (checkNeighbor t u (checkNeighbor t r (checkNeighbor t l g)))" for l r u
    using s2 same_grid_checkNeighbor by (rule same_grid_trans)
  show ?thesis
    by (simp add: addNeighbors_def Let_def same_grid_funs [OF s1] same_grid_funs [OF s2]
        same_grid_funs [OF s3])
qed

lemma addNeighbors_Some:
  assumes "addNeighbors g t = Some g'"
  obtains l r u where "LeftNeighbor g t = Some l" "RightNeighbor g t = Some r"
    "TopNeighbor g t = Some u"
    "g' = checkNeighbor t (BottomNeighbor g t)
            (checkNeighbor t u (checkNeighbor t r (checkNeighbor t l g)))"
  using assms unfolding addNeighbors_eq by (auto split: bind_splits)



lemma checkNeighbor_queue:
  assumes "queue_inv g"
  shows "queue_inv (checkNeighbor t n g)"
    and "tilelist (checkNeighbor t n g) = tilelist g"
    and "dom (visitedtiles g) \<subseteq> dom (visitedtiles (checkNeighbor t n g))"
    and "set (checklist (checkNeighbor t n g)) \<subseteq> set (checklist g) \<union> - dom (visitedtiles g)"
  using assms by (auto simp: queue_inv_def checkNeighbor_def InList_def)

lemma addNeighbors_queue:
  assumes inv: "queue_inv g" and add: "addNeighbors g t = Some g'"
  shows "queue_inv g'"
    and "tilelist g' = tilelist g"
    and "dom (visitedtiles g) \<subseteq> dom (visitedtiles g')"
    and "set (checklist g') \<subseteq> set (checklist g) \<union> - dom (visitedtiles g)"
proof -
  from add obtain l r u where g': "g' = checkNeighbor t (BottomNeighbor g t)
            (checkNeighbor t u (checkNeighbor t r (checkNeighbor t l g)))"
    by (rule addNeighbors_Some)
  let ?g1 = "checkNeighbor t l g"
  let ?g2 = "checkNeighbor t r ?g1"
  let ?g3 = "checkNeighbor t u ?g2"
  note c1 = checkNeighbor_queue [OF inv, of t l]
  note c2 = checkNeighbor_queue [OF c1(1), of t r]
  note c3 = checkNeighbor_queue [OF c2(1), of t u]
  note c4 = checkNeighbor_queue [OF c3(1), of t "BottomNeighbor g t"]
  show "queue_inv g'" using c4(1) g' by simp
  show "tilelist g' = tilelist g" using c1(2) c2(2) c3(2) c4(2) g' by simp
  show "dom (visitedtiles g) \<subseteq> dom (visitedtiles g')"
    using c1(3) c2(3) c3(3) c4(3) g' by blast
  show "set (checklist g') \<subseteq> set (checklist g) \<union> - dom (visitedtiles g)"
    using c1(3,4) c2(3,4) c3(3,4) c4(4) g' by blast
qed

lemma queue_inv_pop:
  assumes "queue_inv g" "checklist g = x # rest"
  shows "queue_inv (g\<lparr>checklist := rest\<rparr>)"
    and "x \<notin> set (tilelist g)" and "x \<notin> set rest" and "x \<in> dom (visitedtiles g)"
  using assms by (auto simp: queue_inv_def)

lemma NextTile_queue:
  assumes "queue_inv g" "NextTile g bb = Some (t, g')"
  shows "queue_inv g' \<and> tilelist g' = tilelist g \<and>
         (0 \<le> t \<longrightarrow> t \<notin> set (tilelist g') \<and> t \<notin> set (checklist g') \<and>
            t \<in> dom (visitedtiles g'))"
  using assms
proof (induction g bb rule: NextTile.induct)
  case (1 g bb)
  show ?case
  proof (cases "checklist g")
    case Nil
    with "1.prems" show ?thesis by (auto simp: NextTile.simps)
  next
    case (Cons x rest)
    note pop = queue_inv_pop [OF "1.prems"(1) Cons]
    from "1.prems" Cons obtain tb where tb: "TileBounds g x = Some tb"
      by (auto simp: NextTile.simps split: option.splits)
    show ?thesis
    proof (cases "Intersects bb tb")
      case True
      with "1.prems" Cons tb have add: "addNeighbors (g\<lparr>checklist := rest\<rparr>) x = Some g'"
        and t: "t = x"
        by (auto simp: NextTile.simps split: option.splits)
      note a = addNeighbors_queue [OF pop(1) add]
      have "x \<notin> set (checklist g')" using a(4) pop(3,4) by auto
      moreover have "x \<in> dom (visitedtiles g')" using a(3) pop(4) by auto
      ultimately show ?thesis using a(1,2) pop(2) t by simp
    next
      case False
      with "1.prems" Cons tb have "NextTile (g\<lparr>checklist := rest\<rparr>) bb = Some (t, g')"
        by (simp add: NextTile.simps)
      from "1.IH" [OF Cons tb False pop(1) this] show ?thesis by auto
    qed
  qed
qed

lemma queue_inv_push:
  assumes "queue_inv g" "t \<notin> set (tilelist g)" "t \<notin> set (checklist g)"
    "t \<in> dom (visitedtiles g)"
  shows "queue_inv (g\<lparr>tilelist := tilelist g @ [t]\<rparr>)"
  using assms by (auto simp: queue_inv_def)

lemma TileList_loop_queue:
  assumes "TileList_loop g bb m = Some g'"
  shows "queue_inv g \<longrightarrow> queue_inv g'"
  using assms
proof (induct rule: TileList_loop.raw_induct [rotated 1, consumes 1])
  case (1 loop g bb m g')
  note ih = "1"(1) and body = "1"(2)
  show ?case
  proof
    assume inv: "queue_inv g"
    from body obtain t g1 where nt: "NextTile g bb = Some (t, g1)"
      by (auto split: option.splits)
    note n = NextTile_queue [OF inv nt]
    show "queue_inv g'"
    proof (cases "0 \<le> t")
      case False
      with body nt have "g' = g1" by simp
      then show ?thesis using n by simp
    next
      case True
      let ?g2 = "g1\<lparr>tilelist := tilelist g1 @ [t]\<rparr>"
      from n True have f: "queue_inv g1" "t \<notin> set (tilelist g1)" "t \<notin> set (checklist g1)"
        "t \<in> dom (visitedtiles g1)"
        by blast+
      have inv2: "queue_inv ?g2" by (rule queue_inv_push [OF f])
      show ?thesis
      proof (cases "length (tilelist ?g2) = m")
        case True
        with body nt \<open>0 \<le> t\<close> have "g' = ?g2" by (simp add: Let_def)
        then show ?thesis using inv2 by simp
      next
        case False
        with body nt \<open>0 \<le> t\<close> have "loop ?g2 bb m = Some g'" by (simp add: Let_def)
        from ih [OF this] inv2 show ?thesis by simp
      qed
    qed
  qed
qed

lemma TileList_grid4_query4_3:
  "map_option tilelist (TileList grid4 query4 3) = Some [5, 4, 6]"
  by (simp add: grid4_def box4_def query4_def eval_defs float32_halves cong: eval_congs)

text \<open>
  Claim C6. No tile id is twice in the list that \<open>TileList\<close> returns. More, no tile id
  is twice in that list and the check list taken together, and each of their tiles is
  marked in the map of visited tiles: a tile is marked when it enters the check list,
  and only tiles that are not marked enter it.
\<close>

theorem TileList_distinct:
  assumes "TileList g bb maxtiles = Some g'"
  shows "distinct (tilelist g') \<and> distinct (tilelist g' @ checklist g') \<and>
         set (tilelist g') \<union> set (checklist g') \<subseteq> dom (visitedtiles g')"
proof -
  let ?g0 = "g\<lparr>checklist := [], tilelist := [], visitedtiles := Map.empty\<rparr>"
  from assms obtain tileid where tid: "TileId ?g0 (AABB2_Center bb) = Some tileid"
    by (auto simp: TileList_def Let_def split: option.splits)
  have "queue_inv g'"
  proof (cases "tileid = - 1")
    case True
    with assms tid have "g' = ?g0" by (simp add: TileList_def Let_def)
    then show ?thesis by (simp add: queue_inv_def)
  next
    case False
    let ?g1 = "?g0\<lparr>tilelist := tilelist ?g0 @ [tileid],
                   visitedtiles := (visitedtiles ?g0)(tileid \<mapsto> 1)\<rparr>"
    from assms tid False obtain g2 where add: "addNeighbors ?g1 tileid = Some g2"
      and loop: "TileList_loop g2 bb maxtiles = Some g'"
      by (auto simp: TileList_def Let_def split: option.splits)
    have "queue_inv ?g1" by (simp add: queue_inv_def)
    then have "queue_inv g2" using add by (rule addNeighbors_queue)
    then show ?thesis using TileList_loop_queue [OF loop] by simp
  qed
  then show ?thesis by (simp add: queue_inv_def)
qed

theorem TileList_distinct_witness:
  "map_option tilelist (TileList grid4 query4 3) = Some [5, 4, 6] \<and> distinct [5, 4, 6 :: int]"
proof -
  obtain g' where g': "TileList grid4 query4 3 = Some g'" and l: "tilelist g' = [5, 4, 6]"
    using TileList_grid4_query4_3 by auto
  show ?thesis
    using TileList_distinct [OF g'] l TileList_grid4_query4_3 by simp
qed

subsection \<open>The bound on the number of tiles\<close>

lemma NextTile_tilelist: "NextTile g bb = Some (t, g') \<Longrightarrow> tilelist g' = tilelist g"
proof (induction g bb rule: NextTile.induct)
  case (1 g bb)
  show ?case
  proof (cases "checklist g")
    case Nil
    with "1.prems" show ?thesis by (simp add: NextTile.simps)
  next
    case (Cons x rest)
    from "1.prems" Cons obtain tb where tb: "TileBounds g x = Some tb"
      by (auto simp: NextTile.simps split: option.splits)
    show ?thesis
    proof (cases "Intersects bb tb")
      case True
      with "1.prems" Cons tb have "addNeighbors (g\<lparr>checklist := rest\<rparr>) x = Some g'"
        by (auto simp: NextTile.simps split: option.splits)
      then show ?thesis by (rule addNeighbors_Some) (simp add: checkNeighbor_def)
    next
      case False
      with "1.prems" Cons tb have "NextTile (g\<lparr>checklist := rest\<rparr>) bb = Some (t, g')"
        by (simp add: NextTile.simps)
      from "1.IH" [OF Cons tb False this] show ?thesis by simp
    qed
  qed
qed

text \<open>From the second tile on, the loop compares the length of the list with
  \<^verbatim>\<open>maxtiles\<close> after each tile that it adds.\<close>

lemma TileList_loop_length:
  assumes "TileList_loop g bb m = Some g'"
  shows "length (tilelist g) < m \<longrightarrow> length (tilelist g') \<le> m"
  using assms
proof (induct rule: TileList_loop.raw_induct [rotated 1, consumes 1])
  case (1 loop g bb m g')
  note ih = "1"(1) and body = "1"(2)
  show ?case
  proof
    assume less: "length (tilelist g) < m"
    from body obtain t g1 where nt: "NextTile g bb = Some (t, g1)"
      by (auto split: option.splits)
    have same: "tilelist g1 = tilelist g" using nt by (rule NextTile_tilelist)
    show "length (tilelist g') \<le> m"
    proof (cases "0 \<le> t")
      case False
      with body nt have "g' = g1" by simp
      then show ?thesis using same less by simp
    next
      case True
      let ?g2 = "g1\<lparr>tilelist := tilelist g1 @ [t]\<rparr>"
      show ?thesis
      proof (cases "length (tilelist ?g2) = m")
        case True
        with body nt \<open>0 \<le> t\<close> have "g' = ?g2" by (simp add: Let_def)
        then show ?thesis using True by simp
      next
        case False
        with body nt \<open>0 \<le> t\<close> have "loop ?g2 bb m = Some g'" by (simp add: Let_def)
        moreover have "length (tilelist ?g2) < m" using False same less by simp
        ultimately show ?thesis using ih by blast
      qed
    qed
  qed
qed

lemma TileList_length_le:
  assumes "TileList g bb maxtiles = Some g'" and "2 \<le> maxtiles"
  shows "length (tilelist g') \<le> maxtiles"
proof -
  let ?g0 = "g\<lparr>checklist := [], tilelist := [], visitedtiles := Map.empty\<rparr>"
  from assms(1) obtain tileid where tid: "TileId ?g0 (AABB2_Center bb) = Some tileid"
    by (auto simp: TileList_def Let_def split: option.splits)
  show ?thesis
  proof (cases "tileid = - 1")
    case True
    with assms(1) tid have "g' = ?g0" by (simp add: TileList_def Let_def)
    then show ?thesis by simp
  next
    case False
    let ?g1 = "?g0\<lparr>tilelist := tilelist ?g0 @ [tileid],
                   visitedtiles := (visitedtiles ?g0)(tileid \<mapsto> 1)\<rparr>"
    from assms(1) tid False obtain g2 where add: "addNeighbors ?g1 tileid = Some g2"
      and loop: "TileList_loop g2 bb maxtiles = Some g'"
      by (auto simp: TileList_def Let_def split: option.splits)
    have "tilelist g2 = tilelist ?g1"
      using add by (rule addNeighbors_Some) (simp add: checkNeighbor_def)
    then have "length (tilelist g2) < maxtiles" using assms(2) by simp
    then show ?thesis using TileList_loop_length [OF loop] by simp
  qed
qed

text \<open>
  Claim C1 says that the list that \<open>TileList\<close> returns is never longer than \<open>maxtiles\<close>,
  for every \<open>maxtiles\<close> from 1 on. The code compares the length with \<open>maxtiles\<close> only
  after it has added a tile in the loop, when the list has two tiles or more. With
  \<open>maxtiles = 1\<close> the comparison never holds: on the grid with bounds \<open>(0,0)-(4,4)\<close> and
  tiles of size 1, the query box \<open>(1/2,1/2)-(5/2,5/2)\<close> gives nine tiles.
\<close>

theorem TileList_maxtiles_1:
  "mkTiles box4 (Fin 1) = Some grid4 \<and>
   map_option tilelist (TileList grid4 query4 1) = Some [5, 4, 6, 9, 1, 8, 0, 10, 2] \<and>
   length [5, 4, 6, 9, 1, 8, 0, 10, 2 :: int] > 1"
  by (simp add: mkTiles_grid4)
    (simp add: grid4_def box4_def query4_def eval_defs float32_halves cong: eval_congs)



subsection \<open>The tiles of the list meet the query box\<close>

lemma TileList_gridr:
  "TileList gridr queryr 10 =
     Some (gridr\<lparr>checklist := [], tilelist := [2, 0],
                 visitedtiles := [2 \<mapsto> 1, 3 \<mapsto> 1, 0 \<mapsto> 1, 1 \<mapsto> 1]\<rparr>)"
  by (simp add: gridr_def boxr_def queryr_def eval_defs exact32 cong: eval_congs)








subsection \<open>\<^verbatim>\<open>TileList\<close> returns\<close>

lemma idiv_neg: "t < 0 \<Longrightarrow> 0 < n \<Longrightarrow> idiv t n = Some (- ((- t) div n))"
  by (simp add: idiv_def sgn_if)

lemma neg_col:
  fixes t n :: int
  shows "t - (- ((- t) div n)) * n = - ((- t) mod n)"
proof -
  have "n * ((- t) div n) + (- t) mod n = - t" by (rule mult_div_mod_eq)
  then have "t + n * ((- t) div n) = - ((- t) mod n)" by linarith
  then show ?thesis by (simp add: algebra_simps)
qed

lemma LeftNeighbor_neg:
  assumes "1 \<le> ncolumns g" "t < 0"
  shows "LeftNeighbor g t = Some (t + ncolumns g - 1)"
proof -
  have n: "0 < ncolumns g" using assms(1) by simp
  have row: "idiv t (ncolumns g) = Some (- ((- t) div ncolumns g))"
    using assms(2) n by (rule idiv_neg)
  have "LeftNeighbor g t =
        Some (if t - (- ((- t) div ncolumns g)) * ncolumns g > 0 then t - 1
              else t + ncolumns g - 1)"
    by (simp only: LeftNeighbor_def row Let_def bind.bind_lunit)
  moreover have "0 \<le> (- t) mod ncolumns g" using n by simp
  ultimately show ?thesis by (simp only: neg_col) simp
qed

lemma RightNeighbor_neg:
  assumes "1 \<le> ncolumns g" "t < 0"
  shows "\<exists>r. RightNeighbor g t = Some r \<and> t \<le> r \<and> r \<le> t + 1"
proof -
  have n: "0 < ncolumns g" using assms(1) by simp
  have m: "0 \<le> (- t) mod ncolumns g" using n by simp
  have row: "idiv t (ncolumns g) = Some (- ((- t) div ncolumns g))"
    using assms(2) n by (rule idiv_neg)
  have "RightNeighbor g t =
        Some (if t - (- ((- t) div ncolumns g)) * ncolumns g < ncolumns g - 1 then t + 1
              else t - ncolumns g + 1)"
    by (simp only: RightNeighbor_def row Let_def bind.bind_lunit)
  then have eq: "RightNeighbor g t =
        Some (if - ((- t) mod ncolumns g) < ncolumns g - 1 then t + 1
              else t - ncolumns g + 1)"
    by (simp only: neg_col)
  show ?thesis
  proof (cases "- ((- t) mod ncolumns g) < ncolumns g - 1")
    case True
    then show ?thesis using eq by simp
  next
    case False
    then have "ncolumns g = 1" using m assms(1) by linarith
    then show ?thesis using eq False by simp
  qed
qed

lemma row_decompose:
  fixes t n K :: int
  assumes "0 < n" "0 \<le> t" "t < K * n"
  obtains r c where "t = r * n + c" "0 \<le> r" "r < K" "0 \<le> c" "c < n"
proof -
  obtain r c where t: "t = r * n + c" and rc: "0 \<le> r" "0 \<le> c" "c < n"
    using tile_decompose [OF assms(1,2)] by blast
  have r: "r < K"
  proof (rule ccontr)
    assume "\<not> r < K"
    then have "K * n \<le> r * n" using assms(1) by (intro mult_right_mono) simp_all
    then show False using t rc assms(3) by linarith
  qed
  show ?thesis using t rc(1) r rc(2,3) by (rule that)
qed

lemma LeftNeighbor_row:
  assumes pos: "1 \<le> ncolumns g" and t: "0 \<le> t" "t < K * ncolumns g"
  shows "\<exists>l. LeftNeighbor g t = Some l \<and> 0 \<le> l \<and> l < K * ncolumns g"
proof -
  have n: "0 < ncolumns g" using pos by simp
  obtain r c where rc: "t = r * ncolumns g + c" "0 \<le> r" "r < K" "0 \<le> c" "c < ncolumns g"
    using row_decompose [OF n t] by blast
  show ?thesis
  proof (cases "0 < c")
    case True
    then have "LeftNeighbor g t = Some (r * ncolumns g + (c - 1))"
      using LeftNeighbor_rc [OF n rc(2,4,5)] rc(1) by simp
    moreover have "0 \<le> r * ncolumns g + (c - 1)" "r * ncolumns g + (c - 1) \<le> ncolumns g * K - 1"
      using tile_id_bounds [OF rc(2,3), of "c - 1" "ncolumns g"] True rc(5) by simp_all
    ultimately show ?thesis by (simp add: mult.commute)
  next
    case False
    then have "LeftNeighbor g t = Some (r * ncolumns g + (ncolumns g - 1))"
      using LeftNeighbor_rc [OF n rc(2,4,5)] rc(1) by simp
    moreover have "0 \<le> r * ncolumns g + (ncolumns g - 1)"
      "r * ncolumns g + (ncolumns g - 1) \<le> ncolumns g * K - 1"
      using tile_id_bounds [OF rc(2,3), of "ncolumns g - 1" "ncolumns g"] n by simp_all
    ultimately show ?thesis by (simp add: mult.commute)
  qed
qed

lemma RightNeighbor_row:
  assumes pos: "1 \<le> ncolumns g" and t: "0 \<le> t" "t < K * ncolumns g"
  shows "\<exists>l. RightNeighbor g t = Some l \<and> 0 \<le> l \<and> l < K * ncolumns g"
proof -
  have n: "0 < ncolumns g" using pos by simp
  obtain r c where rc: "t = r * ncolumns g + c" "0 \<le> r" "r < K" "0 \<le> c" "c < ncolumns g"
    using row_decompose [OF n t] by blast
  show ?thesis
  proof (cases "c < ncolumns g - 1")
    case True
    then have "RightNeighbor g t = Some (r * ncolumns g + (c + 1))"
      using RightNeighbor_rc [OF n rc(2,4,5)] rc(1) by simp
    moreover have "0 \<le> r * ncolumns g + (c + 1)" "r * ncolumns g + (c + 1) \<le> ncolumns g * K - 1"
      using tile_id_bounds [OF rc(2,3), of "c + 1" "ncolumns g"] True rc(4) by simp_all
    ultimately show ?thesis by (simp add: mult.commute)
  next
    case False
    then have "RightNeighbor g t = Some (r * ncolumns g + 0)"
      using RightNeighbor_rc [OF n rc(2,4,5)] rc(1) by simp
    moreover have "0 \<le> r * ncolumns g + 0" "r * ncolumns g + 0 \<le> ncolumns g * K - 1"
      using tile_id_bounds [OF rc(2,3), of 0 "ncolumns g"] n by simp_all
    ultimately show ?thesis by (simp add: mult.commute)
  qed
qed

lemma closed_ids_rows:
  assumes nc: "1 \<le> ncolumns g" and tc: "TileCount g = Some tc" and lo: "lo \<le> 0"
    and K: "1 \<le> K"
    and top: "to_int (to_unsigned (tc - to_unsigned (ncolumns g))) + ncolumns g \<le> K * ncolumns g"
  shows "closed_ids g lo (K * ncolumns g)"
  unfolding closed_ids_def
proof (intro allI impI)
  fix t
  let ?hi = "K * ncolumns g"
  assume "lo \<le> t \<and> t < ?hi"
  then have t: "lo \<le> t" "t < ?hi" by simp_all
  have hi: "ncolumns g \<le> ?hi" using K nc by (simp add: mult_le_cancel_right1)
  have l: "\<exists>l. LeftNeighbor g t = Some l \<and> lo \<le> l \<and> l < ?hi"
  proof (cases "t < 0")
    case True
    have "lo \<le> t + ncolumns g - 1" "t + ncolumns g - 1 < ?hi"
      using t True nc hi by linarith+
    then show ?thesis using LeftNeighbor_neg [OF nc True] by simp
  next
    case False
    then obtain l where "LeftNeighbor g t = Some l" "0 \<le> l" "l < ?hi"
      using LeftNeighbor_row [OF nc _ t(2)] by auto
    then show ?thesis using lo by auto
  qed
  have r: "\<exists>r. RightNeighbor g t = Some r \<and> lo \<le> r \<and> r < ?hi"
  proof (cases "t < 0")
    case True
    obtain r where r: "RightNeighbor g t = Some r" "t \<le> r" "r \<le> t + 1"
      using RightNeighbor_neg [OF nc True] by blast
    have "lo \<le> r" "r < ?hi" using r(2,3) t True nc hi by linarith+
    then show ?thesis using r(1) by simp
  next
    case False
    then obtain r where "RightNeighbor g t = Some r" "0 \<le> r" "r < ?hi"
      using RightNeighbor_row [OF nc _ t(2)] by auto
    then show ?thesis using lo by auto
  qed
  have "TopNeighbor g t =
        Some (if t < to_int (to_unsigned (tc - to_unsigned (ncolumns g)))
              then t + ncolumns g else t)"
    using tc by (simp add: TopNeighbor_def)
  moreover have "lo \<le> (if t < to_int (to_unsigned (tc - to_unsigned (ncolumns g)))
                       then t + ncolumns g else t)"
    using t nc by simp
  moreover have "(if t < to_int (to_unsigned (tc - to_unsigned (ncolumns g)))
                  then t + ncolumns g else t) < ?hi"
    using t top by (simp split: if_splits)
  ultimately have u: "\<exists>u. TopNeighbor g t = Some u \<and> lo \<le> u \<and> u < ?hi"
    by simp
  have b: "lo \<le> BottomNeighbor g t \<and> BottomNeighbor g t < ?hi"
    using t nc lo by (simp add: BottomNeighbor_def)
  show "(\<exists>l. LeftNeighbor g t = Some l \<and> lo \<le> l \<and> l < ?hi) \<and>
        (\<exists>r. RightNeighbor g t = Some r \<and> lo \<le> r \<and> r < ?hi) \<and>
        (\<exists>u. TopNeighbor g t = Some u \<and> lo \<le> u \<and> u < ?hi) \<and>
        lo \<le> BottomNeighbor g t \<and> BottomNeighbor g t < ?hi"
    using l r u b by blast
qed

lemma closed_ids_same_grid: "same_grid g g' \<Longrightarrow> closed_ids g lo hi \<Longrightarrow> closed_ids g' lo hi"
  by (simp add: closed_ids_def same_grid_funs)

lemma closed_ids_columns:
  assumes "closed_ids g lo hi" "lo \<le> t" "t < hi"
  shows "ncolumns g \<noteq> 0"
proof -
  obtain l where "LeftNeighbor g t = Some l"
    using assms by (auto simp: closed_ids_def)
  then show ?thesis by (auto simp: LeftNeighbor_def idiv_def split: bind_splits if_splits)
qed

lemma checkNeighbor_work:
  assumes x: "lo \<le> x" "x < hi" and inv: "list_inv lo hi g"
  shows "work_left lo hi (checkNeighbor t x g) = work_left lo hi g"
    and "list_inv lo hi (checkNeighbor t x g)"
proof -
  show "list_inv lo hi (checkNeighbor t x g)"
    using x inv by (auto simp: checkNeighbor_def list_inv_def)
  show "work_left lo hi (checkNeighbor t x g) = work_left lo hi g"
  proof (cases "x \<noteq> t \<and> \<not> InList g x")
    case False
    then show ?thesis by (auto simp: checkNeighbor_def)
  next
    case True
    let ?U = "{lo..<hi} - dom (visitedtiles g)"
    have mem: "x \<in> ?U" using True x by (auto simp: InList_def)
    have fin: "finite ?U" by simp
    have "{lo..<hi} - dom ((visitedtiles g)(x \<mapsto> 1)) = ?U - {x}" by auto
    then have "card ({lo..<hi} - dom ((visitedtiles g)(x \<mapsto> 1))) = card ?U - 1"
      using mem fin by (simp add: card_Diff_singleton)
    moreover have "0 < card ?U" using mem fin by (auto simp: card_gt_0_iff)
    ultimately show ?thesis using True by (simp add: checkNeighbor_def work_left_def)
  qed
qed

lemma addNeighbors_total:
  assumes cl: "closed_ids g lo hi" and t: "lo \<le> t" "t < hi" and inv: "list_inv lo hi g"
  shows "\<exists>g'. addNeighbors g t = Some g' \<and> same_grid g g' \<and>
           list_inv lo hi g' \<and> work_left lo hi g' = work_left lo hi g"
proof -
  obtain l where l: "LeftNeighbor g t = Some l" "lo \<le> l" "l < hi"
    using cl t by (auto simp: closed_ids_def)
  obtain r where r: "RightNeighbor g t = Some r" "lo \<le> r" "r < hi"
    using cl t by (auto simp: closed_ids_def)
  obtain u where u: "TopNeighbor g t = Some u" "lo \<le> u" "u < hi"
    using cl t by (auto simp: closed_ids_def)
  have b: "lo \<le> BottomNeighbor g t" "BottomNeighbor g t < hi"
    using cl t by (auto simp: closed_ids_def)
  let ?g1 = "checkNeighbor t l g"
  let ?g2 = "checkNeighbor t r ?g1"
  let ?g3 = "checkNeighbor t u ?g2"
  let ?g4 = "checkNeighbor t (BottomNeighbor g t) ?g3"
  note c1 = checkNeighbor_work [OF l(2,3) inv, of t]
  note c2 = checkNeighbor_work [OF r(2,3) c1(2), of t]
  note c3 = checkNeighbor_work [OF u(2,3) c2(2), of t]
  note c4 = checkNeighbor_work [OF b c3(2), of t]
  have "addNeighbors g t = Some ?g4" using l(1) r(1) u(1) by (simp add: addNeighbors_eq)
  moreover have "same_grid g ?g4" by (simp add: same_grid_def checkNeighbor_def)
  moreover have "work_left lo hi ?g4 = work_left lo hi g" using c1(1) c2(1) c3(1) c4(1) by simp
  ultimately show ?thesis using c4(2) by blast
qed

lemma TileBounds_total: "ncolumns g \<noteq> 0 \<Longrightarrow> \<exists>tb. TileBounds g t = Some tb"
  by (simp add: TileBounds_def Base_def idiv_def)

lemma NextTile_total:
  assumes "closed_ids g lo hi" "list_inv lo hi g"
  shows "\<exists>t g'. NextTile g bb = Some (t, g') \<and> same_grid g g' \<and> list_inv lo hi g' \<and>
           (0 \<le> t \<longrightarrow> work_left lo hi g' < work_left lo hi g)"
  using assms
proof (induction g bb rule: NextTile.induct)
  case (1 g bb)
  note cl = "1.prems"(1) and inv = "1.prems"(2)
  show ?case
  proof (cases "checklist g")
    case Nil
    then have "NextTile g bb = Some (- 1, g)" by (simp add: NextTile.simps)
    then show ?thesis using inv by (simp add: same_grid_refl)
  next
    case (Cons x rest)
    let ?g = "g\<lparr>checklist := rest\<rparr>"
    have x: "lo \<le> x" "x < hi" and inv': "list_inv lo hi ?g"
      using inv Cons by (simp_all add: list_inv_def)
    have sg: "same_grid g ?g" by (simp add: same_grid_def)
    have cl': "closed_ids ?g lo hi" using sg cl by (rule closed_ids_same_grid)
    have w: "work_left lo hi ?g < work_left lo hi g" using Cons by (simp add: work_left_def)
    have "ncolumns g \<noteq> 0" using cl x by (rule closed_ids_columns)
    then obtain tb where tb: "TileBounds g x = Some tb"
      using TileBounds_total by blast
    show ?thesis
    proof (cases "Intersects bb tb")
      case True
      obtain g' where g': "addNeighbors ?g x = Some g'" "same_grid ?g g'"
        "list_inv lo hi g'" "work_left lo hi g' = work_left lo hi ?g"
        using addNeighbors_total [OF cl' x inv'] by blast
      have "NextTile g bb = Some (x, g')"
        using Cons tb True g'(1) by (simp add: NextTile.simps)
      moreover have "same_grid g g'" using sg g'(2) by (rule same_grid_trans)
      ultimately show ?thesis using g'(3,4) w by simp
    next
      case False
      obtain t g' where n: "NextTile ?g bb = Some (t, g')" "same_grid ?g g'"
        "list_inv lo hi g'" "0 \<le> t \<longrightarrow> work_left lo hi g' < work_left lo hi ?g"
        using "1.IH" [OF Cons tb False cl' inv'] by blast
      have "NextTile g bb = Some (t, g')"
        using Cons tb False n(1) by (simp add: NextTile.simps)
      moreover have "same_grid g g'" using sg n(2) by (rule same_grid_trans)
      ultimately show ?thesis using n(3,4) w by auto
    qed
  qed
qed

lemma TileList_loop_total:
  assumes "closed_ids g lo hi" "list_inv lo hi g"
  shows "\<exists>g'. TileList_loop g bb m = Some g' \<and> list_inv lo hi g'"
  using assms
proof (induction "work_left lo hi g" arbitrary: g rule: less_induct)
  case less
  obtain t g1 where nt: "NextTile g bb = Some (t, g1)" and sg: "same_grid g g1"
    and inv: "list_inv lo hi g1"
    and w: "0 \<le> t \<longrightarrow> work_left lo hi g1 < work_left lo hi g"
    using NextTile_total [OF less.prems] by blast
  let ?g2 = "g1\<lparr>tilelist := tilelist g1 @ [t]\<rparr>"
  have inv2: "list_inv lo hi ?g2" using inv by (simp add: list_inv_def)
  show ?case
  proof (cases "0 \<le> t \<and> length (tilelist ?g2) \<noteq> m")
    case False
    then show ?thesis
      using nt inv inv2 by (subst TileList_loop.simps) (auto simp: Let_def)
  next
    case True
    have "same_grid g ?g2" using sg by (simp add: same_grid_def)
    then have "closed_ids ?g2 lo hi" using less.prems(1) by (rule closed_ids_same_grid)
    moreover have "work_left lo hi ?g2 < work_left lo hi g"
      using w True by (simp add: work_left_def)
    ultimately obtain g' where "TileList_loop ?g2 bb m = Some g'" "list_inv lo hi g'"
      using less.hyps inv2 by blast
    then show ?thesis using nt True by (subst TileList_loop.simps) (simp add: Let_def)
  qed
qed

lemma same_grid_TileId: "same_grid g g' \<Longrightarrow> TileId g' p = TileId g p"
  by (simp add: same_grid_def TileId_def TileId_yx_def Row_def Col_def cong: if_cong)

lemma TileList_total:
  assumes cl: "closed_ids g lo hi" and s: "TileId g (AABB2_Center q) = Some s"
    and r: "s = - 1 \<or> lo \<le> s \<and> s < hi"
  shows "\<exists>g'. TileList g q maxtiles = Some g' \<and> dom (visitedtiles g') \<subseteq> {lo..<hi}"
proof -
  let ?g0 = "g\<lparr>checklist := [], tilelist := [], visitedtiles := Map.empty\<rparr>"
  have sg0: "same_grid g ?g0" by (simp add: same_grid_def)
  have s0: "TileId ?g0 (AABB2_Center q) = Some s"
    using s by (simp add: same_grid_TileId [OF sg0])
  show ?thesis
  proof (cases "s = - 1")
    case True
    then show ?thesis using s0 by (simp add: TileList_def Let_def)
  next
    case False
    then have sr: "lo \<le> s" "s < hi" using r by simp_all
    let ?g1 = "?g0\<lparr>tilelist := tilelist ?g0 @ [s],
                   visitedtiles := (visitedtiles ?g0)(s \<mapsto> 1)\<rparr>"
    have sg1: "same_grid g ?g1" by (simp add: same_grid_def)
    have cl1: "closed_ids ?g1 lo hi" using sg1 cl by (rule closed_ids_same_grid)
    have "list_inv lo hi ?g1" using sr by (simp add: list_inv_def)
    from addNeighbors_total [OF cl1 sr this]
    obtain g2 where g2: "addNeighbors ?g1 s = Some g2" "same_grid ?g1 g2" "list_inv lo hi g2"
      by blast
    have "closed_ids g2 lo hi" using g2(2) cl1 by (rule closed_ids_same_grid)
    from TileList_loop_total [OF this g2(3)]
    obtain g' where "TileList_loop g2 q maxtiles = Some g'" "list_inv lo hi g'" by blast
    then show ?thesis
      using s0 False g2(1) by (simp add: TileList_def Let_def list_inv_def)
  qed
qed

lemma mkTiles_grid_big: "mkTiles box_big (Fin 1) = Some grid_big"
  by (simp add: mkTiles_def box_big_def grid_big_def fp_sub_def is_int_def float32_halves)

lemma TileCount_grid_big: "TileCount grid_big = Some 1410065408"
  by (simp add: TileCount_def box_big_def grid_big_def fp_sub_def is_int_def to_unsigned_def
      float32_halves)

lemma LeftNeighbor_grid_big: "LeftNeighbor grid_big 1410000000 = Some 1410099999"
  by (simp add: LeftNeighbor_def grid_big_def idiv_def)

lemma TileId_gridr: "TileId gridr (AABB2_Center queryr) = Some 2"
  by (simp add: gridr_def boxr_def queryr_def eval_defs exact32 cong: eval_congs)

lemma gridr_trace:
  "addNeighbors (gridr\<lparr>tilelist := [2], visitedtiles := [2 \<mapsto> 1]\<rparr>) 2 = Some gridr_1"
  "NextTile gridr_1 queryr = Some (0, gridr_2)"
  "NextTile (gridr_2\<lparr>tilelist := [2, 0]\<rparr>) queryr = Some (- 1, gridr_3)"
  by (simp_all add: gridr_1_def gridr_2_def gridr_3_def gridr_def boxr_def queryr_def eval_defs
      exact32 cong: eval_congs)

lemma closed_ids_any:
  assumes g: "mkTiles b ts = Some g" and nc: "1 \<le> ncolumns g"
  shows "\<exists>lo hi. closed_ids g lo hi \<and> (s = - 1 \<or> lo \<le> s \<and> s < hi)"
proof -
  define tc where "tc = to_unsigned (ncolumns g * nrows g)"
  define T where "T = to_int (to_unsigned (tc - to_unsigned (ncolumns g)))"
  define M where "M = max (max s T) 0"
  have tc: "TileCount g = Some tc" using TileCount_mkTiles [OF g] by (simp add: tc_def)
  have M: "0 \<le> M" "s \<le> M" "T \<le> M" by (simp_all add: M_def)
  have "M * 1 \<le> M * ncolumns g" using M(1) nc by (intro mult_left_mono) simp_all
  then have hi: "M + 2 * ncolumns g \<le> (M + 2) * ncolumns g" by (simp add: algebra_simps)
  have top: "T + ncolumns g \<le> (M + 2) * ncolumns g" using hi M(3) nc by linarith
  have "closed_ids g (min s 0) ((M + 2) * ncolumns g)"
    using nc tc _ _ top [unfolded T_def] by (rule closed_ids_rows) (use M(1) in simp_all)
  moreover have "min s 0 \<le> s" "s < (M + 2) * ncolumns g" using hi M(2) nc by simp_all
  ultimately show ?thesis by blast
qed

lemma TileCount_fits:
  assumes g: "mkTiles b ts = Some g" and nc: "1 \<le> ncolumns g" and nr: "1 \<le> nrows g"
    and fits: "is_int (ncolumns g * nrows g)"
  shows "TileCount g = Some (ncolumns g * nrows g)"
    and "closed_ids g 0 (ncolumns g * nrows g)"
proof -
  let ?n = "ncolumns g * nrows g"
  have "ncolumns g * 1 \<le> ?n" using nc nr by (intro mult_left_mono) simp_all
  then have le: "ncolumns g \<le> ?n" by simp
  then have n: "0 \<le> ?n" "?n < 2 ^ 32" using nc fits by (simp_all add: is_int_def)
  then have u: "to_unsigned ?n = ?n" by (simp add: to_unsigned_def)
  show tc: "TileCount g = Some ?n" using TileCount_mkTiles [OF g] u by simp
  have "0 \<le> ?n - ncolumns g" "?n - ncolumns g \<le> ?n" using le nc by simp_all
  then have "is_int (?n - ncolumns g)" using fits unfolding is_int_def by linarith
  then have "to_int (to_unsigned (?n - to_unsigned (ncolumns g))) = ?n - ncolumns g"
    by (simp add: to_unsigned_diff to_int_to_unsigned)
  then have "to_int (to_unsigned (?n - to_unsigned (ncolumns g))) + ncolumns g
             \<le> nrows g * ncolumns g"
    by (simp add: mult.commute)
  from closed_ids_rows [OF nc tc _ nr this, of 0]
  show "closed_ids g 0 ?n" by (simp add: mult.commute)
qed

text \<open>
  Claim C10, as stated: on a grid with at least one column and bounds that are not
  degenerate, the four neighbours of a tile id in \<open>[0, TileCount())\<close> lie in
  \<open>[0, TileCount())\<close>, so \<open>TileList\<close> takes no more tile ids off the check list than the
  grid has tiles. Both parts fail.

  \<^item> The grid of one row of two tiles, \<open>TileCount() = 2\<close>, and the query box that is the
    point \<open>x = 1/2\<close>, \<open>y = -2\<^sup>-\<^sup>2\<^sup>6\<close>: the tile id of the centre is 2 (the difference
    \<open>y - miny\<close> is rounded to 1, see claim C2), outside \<open>[0, 2)\<close>. Its neighbours 3 and 0
    enter the check list. \<open>NextTile\<close> takes 3 and 0 off the list, returns 0 and puts its
    neighbour 1 on the list; the next call takes 1 off the list and returns \<open>-1\<close>. These
    are three tile ids taken off the check list, and four marked as visited, on a grid
    of two tiles.
  \<^item> The grid with the bounds \<open>(0,0)-(100000,100000)\<close> and tiles of size 1 has
    \<open>10\<^sup>1\<^sup>0\<close> tiles, which is no value of \<^verbatim>\<open>int\<close> (the product in \<open>TileCount\<close> overflows;
    the model gives what the conversion to \<^verbatim>\<open>unsigned int\<close> keeps of it, 1410065408).
    The tile id 1410000000 is below that, its left neighbour 1410099999 is not.
\<close>

theorem TileList_terminates_counterexample:
  "mkTiles boxr (Fin 1) = Some gridr \<and> 1 \<le> ncolumns gridr \<and>
   fp_lt (minx boxr) (maxx boxr) \<and> fp_lt (miny boxr) (maxy boxr) \<and>
   TileCount gridr = Some 2 \<and> TileId gridr (AABB2_Center queryr) = Some 2 \<and>
   addNeighbors (gridr\<lparr>tilelist := [2], visitedtiles := [2 \<mapsto> 1]\<rparr>) 2 = Some gridr_1 \<and>
   checklist gridr_1 = [3, 0] \<and>
   NextTile gridr_1 queryr = Some (0, gridr_2) \<and> checklist gridr_2 = [1] \<and>
   NextTile (gridr_2\<lparr>tilelist := [2, 0]\<rparr>) queryr = Some (- 1, gridr_3) \<and>
   checklist gridr_3 = [] \<and> dom (visitedtiles gridr_3) = {0, 1, 2, 3} \<and>
   TileList gridr queryr 10 = Some gridr_3 \<and>
   mkTiles box_big (Fin 1) = Some grid_big \<and> 1 \<le> ncolumns grid_big \<and>
   fp_lt (minx box_big) (maxx box_big) \<and> fp_lt (miny box_big) (maxy box_big) \<and>
   TileCount grid_big = Some 1410065408 \<and>
   LeftNeighbor grid_big 1410000000 = Some 1410099999"
proof -
  have "1 \<le> ncolumns gridr" "fp_lt (minx boxr) (maxx boxr)" "fp_lt (miny boxr) (maxy boxr)"
    "checklist gridr_1 = [3, 0]" "checklist gridr_2 = [1]" "checklist gridr_3 = []"
    "1 \<le> ncolumns grid_big" "fp_lt (minx box_big) (maxx box_big)"
    "fp_lt (miny box_big) (maxy box_big)"
    by (simp_all add: gridr_def boxr_def gridr_1_def gridr_2_def gridr_3_def grid_big_def
        box_big_def)
  moreover have "dom (visitedtiles gridr_3) = {0, 1, 2, 3}"
    by (auto simp: gridr_3_def)
  moreover have "TileList gridr queryr 10 = Some gridr_3"
    using TileList_gridr by (simp add: gridr_3_def)
  ultimately show ?thesis
    using mkTiles_gridr TileCount_gridr TileId_gridr gridr_trace mkTiles_grid_big
      TileCount_grid_big LeftNeighbor_grid_big
    by simp
qed

text \<open>
  Claim C10, amended. On a grid that the constructor has built with at least one column,
  for a query box whose centre has a tile id (the conversions to \<^verbatim>\<open>int\<close> in \<open>Row\<close> and
  \<open>Col\<close> are defined), \<open>TileList\<close> returns, for every \<open>maxtiles\<close>: each tile id enters the
  check list at most once, when it is marked as visited (claim C6), and the ids that are
  marked lie in a finite range, so the marked ids are finitely many. When the number of
  tiles \<open>ncolumns * nrows\<close> is a value of \<^verbatim>\<open>int\<close>, it is \<open>TileCount()\<close> and the four
  neighbours of a tile id in \<open>[0, TileCount())\<close> lie in \<open>[0, TileCount())\<close>; when moreover
  the tile id of the centre lies in that range, so does every id that \<open>TileList\<close> marks
  as visited: these are the first tile and the ids that enter the check list, so at most
  \<open>TileCount() - 1\<close> ids are taken off the check list.
\<close>

theorem TileList_terminates:
  assumes g: "mkTiles b ts = Some g" and nc: "1 \<le> ncolumns g"
    and s: "TileId g (AABB2_Center q) = Some s"
  shows "(\<exists>g'. TileList g q maxtiles = Some g' \<and> finite (dom (visitedtiles g')) \<and>
            (is_int (ncolumns g * nrows g) \<and> 0 \<le> s \<and> s < ncolumns g * nrows g \<longrightarrow>
               dom (visitedtiles g') \<subseteq> {0..<ncolumns g * nrows g} \<and>
               int (card (dom (visitedtiles g'))) \<le> ncolumns g * nrows g)) \<and>
         (is_int (ncolumns g * nrows g) \<and> 1 \<le> nrows g \<longrightarrow>
            TileCount g = Some (ncolumns g * nrows g) \<and>
            (\<forall>t. 0 \<le> t \<and> t < ncolumns g * nrows g \<longrightarrow>
               (\<exists>l. LeftNeighbor g t = Some l \<and> 0 \<le> l \<and> l < ncolumns g * nrows g) \<and>
               (\<exists>r. RightNeighbor g t = Some r \<and> 0 \<le> r \<and> r < ncolumns g * nrows g) \<and>
               (\<exists>u. TopNeighbor g t = Some u \<and> 0 \<le> u \<and> u < ncolumns g * nrows g) \<and>
               0 \<le> BottomNeighbor g t \<and> BottomNeighbor g t < ncolumns g * nrows g))"
proof (intro conjI impI)
  let ?n = "ncolumns g * nrows g"
  show "\<exists>g'. TileList g q maxtiles = Some g' \<and> finite (dom (visitedtiles g')) \<and>
            (is_int ?n \<and> 0 \<le> s \<and> s < ?n \<longrightarrow>
               dom (visitedtiles g') \<subseteq> {0..<?n} \<and> int (card (dom (visitedtiles g'))) \<le> ?n)"
  proof (cases "is_int ?n \<and> 0 \<le> s \<and> s < ?n")
    case True
    have "1 \<le> nrows g"
    proof (rule ccontr)
      assume "\<not> 1 \<le> nrows g"
      then have "ncolumns g * nrows g \<le> ncolumns g * 0"
        using nc by (intro mult_left_mono) simp_all
      then show False using True by simp
    qed
    then have "closed_ids g 0 ?n" using g nc True by (intro TileCount_fits(2)) simp_all
    from TileList_total [OF this s, of maxtiles] True
    obtain g' where g': "TileList g q maxtiles = Some g'" "dom (visitedtiles g') \<subseteq> {0..<?n}"
      by auto
    have fin: "finite (dom (visitedtiles g'))" using g'(2) by (rule finite_subset) simp
    have "card (dom (visitedtiles g')) \<le> card {0..<?n}"
      using g'(2) by (intro card_mono) simp_all
    moreover have "0 \<le> ?n" using True by linarith
    ultimately have "int (card (dom (visitedtiles g'))) \<le> ?n" by simp
    then show ?thesis using g' fin by blast
  next
    case False
    obtain lo hi where "closed_ids g lo hi" "s = - 1 \<or> lo \<le> s \<and> s < hi"
      using closed_ids_any [OF g nc, of s] by blast
    from TileList_total [OF this(1) s this(2), of maxtiles]
    obtain g' where g': "TileList g q maxtiles = Some g'" "dom (visitedtiles g') \<subseteq> {lo..<hi}"
      by auto
    have "finite (dom (visitedtiles g'))" using g'(2) by (rule finite_subset) simp
    then show ?thesis using g'(1) False by blast
  qed
next
  assume a: "is_int (ncolumns g * nrows g) \<and> 1 \<le> nrows g"
  then show "TileCount g = Some (ncolumns g * nrows g)"
    using g nc by (intro TileCount_fits(1)) simp_all
  have "closed_ids g 0 (ncolumns g * nrows g)"
    using g nc a by (intro TileCount_fits(2)) simp_all
  then show "\<forall>t. 0 \<le> t \<and> t < ncolumns g * nrows g \<longrightarrow>
               (\<exists>l. LeftNeighbor g t = Some l \<and> 0 \<le> l \<and> l < ncolumns g * nrows g) \<and>
               (\<exists>r. RightNeighbor g t = Some r \<and> 0 \<le> r \<and> r < ncolumns g * nrows g) \<and>
               (\<exists>u. TopNeighbor g t = Some u \<and> 0 \<le> u \<and> u < ncolumns g * nrows g) \<and>
               0 \<le> BottomNeighbor g t \<and> BottomNeighbor g t < ncolumns g * nrows g"
    by (simp only: closed_ids_def)
qed

lemma TileId_grid4_query4: "TileId grid4 (AABB2_Center query4) = Some 5"
  by (simp add: grid4_def box4_def query4_def eval_defs float32_halves cong: eval_congs)

theorem TileList_terminates_witness:
  "mkTiles box4 (Fin 1) = Some grid4 \<and> 1 \<le> ncolumns grid4 \<and>
   TileId grid4 (AABB2_Center query4) = Some 5 \<and>
   is_int (ncolumns grid4 * nrows grid4) \<and> 1 \<le> nrows grid4 \<and>
   (\<exists>g'. TileList grid4 query4 3 = Some g' \<and> finite (dom (visitedtiles g')) \<and>
      dom (visitedtiles g') \<subseteq> {0..<16} \<and> int (card (dom (visitedtiles g'))) \<le> 16) \<and>
   TileCount grid4 = Some 16 \<and>
   (\<exists>l. LeftNeighbor grid4 7 = Some l \<and> 0 \<le> l \<and> l < 16) \<and>
   (\<exists>r. RightNeighbor grid4 7 = Some r \<and> 0 \<le> r \<and> r < 16) \<and>
   (\<exists>u. TopNeighbor grid4 7 = Some u \<and> 0 \<le> u \<and> u < 16) \<and>
   0 \<le> BottomNeighbor grid4 7 \<and> BottomNeighbor grid4 7 < 16"
proof -
  have h: "1 \<le> ncolumns grid4" by (simp add: grid4_def)
  have n: "ncolumns grid4 * nrows grid4 = 16" "1 \<le> nrows grid4" "is_int 16"
    by (simp_all add: grid4_def is_int_def)
  show ?thesis
    using h n mkTiles_grid4 TileId_grid4_query4
      TileList_terminates [OF mkTiles_grid4 h TileId_grid4_query4, of 3]
    by (simp add: n) 
qed

end
